theory Spec2Isabelle
  imports Complex_Main
begin

section \<open>JavaScript numbers\<close>

text \<open>
  A JavaScript number is modelled as a real number or one of the three special values
  the program produces or tests for: \<open>Infinity\<close>, \<open>-Infinity\<close> and \<open>NaN\<close>.
  Finite arithmetic is exact (no rounding) and there is a single zero; the special values
  follow IEEE 754 as JavaScript exposes it.
\<close>

datatype jsnum = Num real | PosInf | NegInf | NaN

text \<open>The operator \<open>a < b\<close>: false as soon as one side is \<open>NaN\<close>.\<close>

fun js_lt :: "jsnum \<Rightarrow> jsnum \<Rightarrow> bool" where
  "js_lt (Num a) (Num b) = (a < b)"
| "js_lt (Num a) PosInf = True"
| "js_lt NegInf (Num b) = True"
| "js_lt NegInf PosInf = True"
| "js_lt _ _ = False"

text \<open>The operator \<open>a >= b\<close>.\<close>

fun js_ge :: "jsnum \<Rightarrow> jsnum \<Rightarrow> bool" where
  "js_ge NaN _ = False"
| "js_ge _ NaN = False"
| "js_ge a b = (\<not> js_lt a b)"

text \<open>The operator \<open>a > b\<close>.\<close>

definition js_gt :: "jsnum \<Rightarrow> jsnum \<Rightarrow> bool" where
  "js_gt a b = js_lt b a"

text \<open>The operator \<open>a <= b\<close>.\<close>

definition js_le :: "jsnum \<Rightarrow> jsnum \<Rightarrow> bool" where
  "js_le a b = js_ge b a"

fun js_neg :: "jsnum \<Rightarrow> jsnum" where
  "js_neg (Num a) = Num (- a)"
| "js_neg PosInf = NegInf"
| "js_neg NegInf = PosInf"
| "js_neg NaN = NaN"

fun js_add :: "jsnum \<Rightarrow> jsnum \<Rightarrow> jsnum" where
  "js_add (Num a) (Num b) = Num (a + b)"
| "js_add NaN _ = NaN"
| "js_add _ NaN = NaN"
| "js_add PosInf NegInf = NaN"
| "js_add NegInf PosInf = NaN"
| "js_add PosInf _ = PosInf"
| "js_add _ PosInf = PosInf"
| "js_add NegInf _ = NegInf"
| "js_add _ NegInf = NegInf"

definition js_sub :: "jsnum \<Rightarrow> jsnum \<Rightarrow> jsnum" where
  "js_sub a b = js_add a (js_neg b)"

text \<open>The sign of a number that is not \<open>NaN\<close>: \<open>-1\<close>, \<open>0\<close> or \<open>1\<close>.\<close>

fun js_sign :: "jsnum \<Rightarrow> int" where
  "js_sign (Num a) = (if a < 0 then - 1 else if a = 0 then 0 else 1)"
| "js_sign PosInf = 1"
| "js_sign NegInf = - 1"
| "js_sign NaN = 0"

definition inf_of_sign :: "int \<Rightarrow> jsnum" where
  "inf_of_sign s = (if s < 0 then NegInf else if s = 0 then NaN else PosInf)"

fun js_mul :: "jsnum \<Rightarrow> jsnum \<Rightarrow> jsnum" where
  "js_mul (Num a) (Num b) = Num (a * b)"
| "js_mul NaN _ = NaN"
| "js_mul _ NaN = NaN"
| "js_mul a b = inf_of_sign (js_sign a * js_sign b)"

text \<open>
  Division: a finite non-zero number over zero is an infinity of the sign of the numerator
  (the program only divides by the non-negative difference \<open>maxValue - minValue\<close>),
  \<open>0 / 0\<close> and \<open>Infinity / Infinity\<close> are \<open>NaN\<close>.
\<close>

fun js_div :: "jsnum \<Rightarrow> jsnum \<Rightarrow> jsnum" where
  "js_div (Num a) (Num b) = (if b = 0 then inf_of_sign (js_sign (Num a)) else Num (a / b))"
| "js_div NaN _ = NaN"
| "js_div _ NaN = NaN"
| "js_div (Num a) _ = Num 0"
| "js_div a (Num b) = inf_of_sign (js_sign a * (if b < 0 then - 1 else 1))"
| "js_div _ _ = NaN"

fun js_abs :: "jsnum \<Rightarrow> jsnum" where
  "js_abs (Num a) = Num \<bar>a\<bar>"
| "js_abs NaN = NaN"
| "js_abs _ = PosInf"

text \<open>\<open>Math.min\<close> and \<open>Math.max\<close> of two numbers.\<close>

fun js_min :: "jsnum \<Rightarrow> jsnum \<Rightarrow> jsnum" where
  "js_min NaN _ = NaN"
| "js_min _ NaN = NaN"
| "js_min a b = (if js_lt b a then b else a)"

fun js_max :: "jsnum \<Rightarrow> jsnum \<Rightarrow> jsnum" where
  "js_max NaN _ = NaN"
| "js_max _ NaN = NaN"
| "js_max a b = (if js_lt a b then b else a)"

text \<open>Truthiness of a number: \<open>0\<close> and \<open>NaN\<close> are falsy.\<close>

fun js_truthy :: "jsnum \<Rightarrow> bool" where
  "js_truthy (Num a) = (a \<noteq> 0)"
| "js_truthy NaN = False"
| "js_truthy _ = True"

text \<open>\<open>m.get(k) || d\<close> on a \<open>Map\<close> of numbers: the default also replaces a stored \<open>0\<close>.\<close>

definition get_or :: "('k \<rightharpoonup> jsnum) \<Rightarrow> 'k \<Rightarrow> jsnum \<Rightarrow> jsnum" where
  "get_or m k d = (case m k of None \<Rightarrow> d | Some v \<Rightarrow> if js_truthy v then v else d)"

section \<open>Terrain constants (terrainConstants.ts)\<close>

text \<open>\<open>TERRAIN_BOUNDARIES\<close>: the noise thresholds of the six terrain types.\<close>

record boundaries =
  b_water :: real
  b_sand :: real
  b_land :: real
  b_hills :: real
  b_mountain :: real
  b_snow :: real

definition TERRAIN_BOUNDARIES :: boundaries where
  "TERRAIN_BOUNDARIES =
     \<lparr> b_water = 0.40, b_sand = 0.45, b_land = 0.65,
       b_hills = 0.75, b_mountain = 0.85, b_snow = 0.95 \<rparr>"

text \<open>
  \<open>TerrainDefinition\<close> without its colours, which neither generation nor path finding
  reads.
\<close>

record TerrainDefinition =
  td_name :: string
  td_cost :: jsnum
  td_boundary :: real

text \<open>
  \<open>TERRAIN_DEFINITIONS[terrain]\<close>: the entry of the table, \<open>None\<close> for \<open>undefined\<close>.
  A name inherited from \<open>Object.prototype\<close> yields an object without a \<open>cost\<close>, which
  \<open>getTerrainCost\<close> treats like \<open>undefined\<close>.
\<close>

definition TERRAIN_DEFINITIONS :: "string \<Rightarrow> TerrainDefinition option" where
  "TERRAIN_DEFINITIONS terrain =
     (if terrain = ''water'' then
        Some \<lparr> td_name = ''water'', td_cost = PosInf, td_boundary = b_water TERRAIN_BOUNDARIES \<rparr>
      else if terrain = ''sand'' then
        Some \<lparr> td_name = ''sand'', td_cost = Num 3, td_boundary = b_sand TERRAIN_BOUNDARIES \<rparr>
      else if terrain = ''land'' then
        Some \<lparr> td_name = ''land'', td_cost = Num 1, td_boundary = b_land TERRAIN_BOUNDARIES \<rparr>
      else if terrain = ''hills'' then
        Some \<lparr> td_name = ''hills'', td_cost = Num 2, td_boundary = b_hills TERRAIN_BOUNDARIES \<rparr>
      else if terrain = ''mountain'' then
        Some \<lparr> td_name = ''mountain'', td_cost = Num 4,
               td_boundary = b_mountain TERRAIN_BOUNDARIES \<rparr>
      else if terrain = ''snow'' then
        Some \<lparr> td_name = ''snow'', td_cost = Num 5, td_boundary = b_snow TERRAIN_BOUNDARIES \<rparr>
      else None)"

text \<open>
  \<open>getTerrainCost\<close>: \<open>TERRAIN_DEFINITIONS[terrain]?.cost ?? 1\<close>. The argument is
  \<open>None\<close> when the caller read a cell beyond the end of a row (\<open>undefined\<close>), which is
  no key of the table either.
\<close>

definition getTerrainCost :: "string option \<Rightarrow> jsnum" where
  "getTerrainCost terrain =
     (case terrain of
        None \<Rightarrow> Num 1
      | Some t \<Rightarrow> (case TERRAIN_DEFINITIONS t of None \<Rightarrow> Num 1 | Some d \<Rightarrow> td_cost d))"

definition getTerrainOrder :: "string list" where
  "getTerrainOrder = [''water'', ''sand'', ''land'', ''hills'', ''mountain'', ''snow'']"

text \<open>A list of terrain names whose costs never decrease from one name to the next.\<close>

fun costs_nondecreasing :: "string list \<Rightarrow> bool" where
  "costs_nondecreasing (a # b # rest) =
     (js_le (getTerrainCost (Some a)) (getTerrainCost (Some b)) \<and> costs_nondecreasing (b # rest))"
| "costs_nondecreasing _ = True"

text \<open>A finite cost of at least 1.\<close>

fun finite_ge_one :: "jsnum \<Rightarrow> bool" where
  "finite_ge_one (Num c) = (1 \<le> c)"
| "finite_ge_one _ = False"

section \<open>Terrain classification (noise.ts)\<close>

text \<open>\<open>getTerrainType\<close>: the chain of threshold tests.\<close>

definition getTerrainType :: "jsnum \<Rightarrow> string" where
  "getTerrainType val =
     (if js_lt val (Num (b_water TERRAIN_BOUNDARIES)) then ''water''
      else if js_lt val (Num (b_sand TERRAIN_BOUNDARIES)) then ''sand''
      else if js_lt val (Num (b_land TERRAIN_BOUNDARIES)) then ''land''
      else if js_lt val (Num (b_hills TERRAIN_BOUNDARIES)) then ''hills''
      else if js_lt val (Num (b_mountain TERRAIN_BOUNDARIES)) then ''mountain''
      else if js_lt val (Num (b_snow TERRAIN_BOUNDARIES)) then ''snow''
      else ''snow'')"

text \<open>
  The rule in the words of the specification: the categories in ascending boundary order,
  the first one whose boundary the value is strictly below, and snow when there is none.
\<close>

definition ascending_boundaries :: "(string \<times> real) list" where
  "ascending_boundaries =
     [(''water'', 0.40), (''sand'', 0.45), (''land'', 0.65),
      (''hills'', 0.75), (''mountain'', 0.85), (''snow'', 0.95)]"

definition first_boundary_above :: "jsnum \<Rightarrow> string" where
  "first_boundary_above v =
     (case find (\<lambda>p. js_lt v (Num (snd p))) ascending_boundaries of
        Some p \<Rightarrow> fst p
      | None \<Rightarrow> ''snow'')"

section \<open>Noise field (noise.ts)\<close>

text \<open>
  The noise primitive of \<open>fast-simplex-noise\<close>, which \<open>createNoiseInstance\<close> seeds
  from \<open>Math.random\<close>, is not part of this repository: the noise instance of a
  generation is a parameter \<open>noise2D\<close>, a function from two coordinates to a finite
  number.
\<close>

type_synonym noise = "real \<Rightarrow> real \<Rightarrow> real"

type_synonym field = "jsnum list list"

text \<open>
  The octave loop of \<open>generateFractalNoise\<close>: \<open>n\<close> iterations remain, the state is
  \<open>value\<close>, \<open>amplitude\<close>, \<open>frequency\<close>, \<open>maxValue\<close>; the result is the final
  \<open>value\<close> and \<open>maxValue\<close>.
\<close>

fun octave_loop ::
  "noise \<Rightarrow> real \<Rightarrow> real \<Rightarrow> real \<Rightarrow> nat \<Rightarrow> real \<Rightarrow> real \<Rightarrow> real \<Rightarrow> real \<Rightarrow> real \<times> real"
where
  "octave_loop noise2D x y persistence 0 val amplitude frequency maxValue = (val, maxValue)"
| "octave_loop noise2D x y persistence (Suc n) val amplitude frequency maxValue =
     octave_loop noise2D x y persistence n
       (val + noise2D (x * frequency) (y * frequency) * amplitude)
       (amplitude * persistence) (frequency * 2) (maxValue + amplitude)"

definition generateFractalNoise :: "real \<Rightarrow> real \<Rightarrow> noise \<Rightarrow> nat \<Rightarrow> real \<Rightarrow> jsnum" where
  "generateFractalNoise x y noise2D octaves persistence =
     (case octave_loop noise2D x y persistence octaves 0 1 1 0 of
        (val, maxValue) \<Rightarrow>
          js_div (js_add (js_div (Num val) (Num maxValue)) (Num 1)) (Num 2))"

text \<open>
  The first pass of \<open>generateMap\<close>: \<open>height\<close> rows of \<open>width\<close> values, row \<open>y\<close>
  column \<open>x\<close> holding the fractal noise at \<open>(x / 50, y / 50)\<close> with the default 4
  octaves and persistence 0.5. A loop \<open>for (x = 0; x < width; x++)\<close> over an integer
  \<open>width\<close> runs \<open>nat width\<close> times, not at all when \<open>width \<le> 0\<close>.
\<close>

definition first_pass :: "noise \<Rightarrow> int \<Rightarrow> int \<Rightarrow> field" where
  "first_pass noise2D width height =
     map (\<lambda>y. map (\<lambda>x. generateFractalNoise (real x / 50) (real y / 50) noise2D 4 0.5)
                 [0..<nat width])
         [0..<nat height]"

text \<open>
  \<open>minValue\<close> and \<open>maxValue\<close> after the first pass: started at \<open>Infinity\<close> and
  \<open>-Infinity\<close>, updated with \<open>Math.min\<close> and \<open>Math.max\<close> in row-major order.
\<close>

definition minValue_of :: "field \<Rightarrow> jsnum" where
  "minValue_of m = fold (\<lambda>v acc. js_min acc v) (concat m) PosInf"

definition maxValue_of :: "field \<Rightarrow> jsnum" where
  "maxValue_of m = fold (\<lambda>v acc. js_max acc v) (concat m) NegInf"

text \<open>The second pass: \<open>(map[y][x] - minValue) / (maxValue - minValue)\<close> in every cell.\<close>

definition second_pass :: "field \<Rightarrow> jsnum \<Rightarrow> jsnum \<Rightarrow> field" where
  "second_pass m minValue maxValue =
     map (map (\<lambda>v. js_div (js_sub v minValue) (js_sub maxValue minValue))) m"

definition generateMap :: "noise \<Rightarrow> int \<Rightarrow> int \<Rightarrow> field" where
  "generateMap noise2D width height =
     (let m = first_pass noise2D width height
      in second_pass m (minValue_of m) (maxValue_of m))"

section \<open>Terrain data (mapGenerator.ts)\<close>

record MapConfig =
  width :: int
  height :: int
  cellSize :: int

record TerrainData =
  noiseMap :: field
  terrainMap :: "string list list"

text \<open>
  A visibility object \<open>{ [key: string]: boolean }\<close>: its own keys in the order of
  \<open>Object.keys\<close>, each with its value. Reading a key the object does not have yields
  \<open>undefined\<close>, which is falsy.
\<close>

type_synonym visibility = "(string \<times> bool) list"

definition vis_lookup :: "visibility \<Rightarrow> string \<Rightarrow> bool" where
  "vis_lookup tv k = (case map_of tv k of None \<Rightarrow> False | Some b \<Rightarrow> b)"

text \<open>\<open>Object.keys(terrainVisibility).filter(terrain => terrainVisibility[terrain])\<close>.\<close>

definition availableTerrains_of :: "visibility \<Rightarrow> string list" where
  "availableTerrains_of tv = filter (\<lambda>terrain. vis_lookup tv terrain) (map fst tv)"

text \<open>
  \<open>noiseMap[r][c]\<close> for a row \<open>r\<close> that exists; \<open>None\<close> is \<open>undefined\<close>, read beyond
  the end of the row. (\<open>checkNearWater\<close> keeps \<open>r\<close> inside the field.)
\<close>

definition noise_at :: "field \<Rightarrow> int \<Rightarrow> int \<Rightarrow> jsnum option" where
  "noise_at m r c =
     (if 0 \<le> r \<and> nat r < length m \<and> 0 \<le> c \<and> nat c < length (m ! nat r)
      then Some (m ! nat r ! nat c) else None)"

text \<open>
  \<open>checkNearWater\<close>: is there a cell other than the centre, inside the clipped square of
  the given radius and at Euclidean distance at most the radius, whose noise is below 0.40?
  The width is the length of the first row, which exists: the function is called for a
  cell of the map. The early \<open>return true\<close> makes the nested loops an existence test.
\<close>

definition checkNearWater :: "field \<Rightarrow> int \<Rightarrow> int \<Rightarrow> int \<Rightarrow> bool" where
  "checkNearWater m row col radius =
     (let height = int (length m);
          width = int (length (m ! 0))
      in list_ex (\<lambda>r.
           list_ex (\<lambda>c.
             \<not> (r = row \<and> c = col)
             \<and> sqrt (real_of_int ((r - row)\<^sup>2 + (c - col)\<^sup>2)) \<le> real_of_int radius
             \<and> (case noise_at m r c of None \<Rightarrow> False | Some v \<Rightarrow> js_lt v (Num 0.40)))
             [max 0 (col - radius) .. min (width - 1) (col + radius)])
           [max 0 (row - radius) .. min (height - 1) (row + radius)])"

record terrainRange =
  r_terrain :: string
  r_min :: real
  r_max :: real

definition terrainRanges :: "terrainRange list" where
  "terrainRanges =
     [\<lparr> r_terrain = ''water'', r_min = 0, r_max = 0.40 \<rparr>,
      \<lparr> r_terrain = ''sand'', r_min = 0.40, r_max = 0.45 \<rparr>,
      \<lparr> r_terrain = ''land'', r_min = 0.45, r_max = 0.65 \<rparr>,
      \<lparr> r_terrain = ''hills'', r_min = 0.65, r_max = 0.75 \<rparr>,
      \<lparr> r_terrain = ''mountain'', r_min = 0.75, r_max = 0.85 \<rparr>,
      \<lparr> r_terrain = ''snow'', r_min = 0.85, r_max = 0.95 \<rparr>]"

text \<open>
  One iteration of the loop over \<open>availableTerrains\<close> that looks for the closest range
  centre; the state is \<open>(closestTerrain, minDistance)\<close>.
\<close>

definition closest_step :: "jsnum \<Rightarrow> string \<Rightarrow> string \<times> jsnum \<Rightarrow> string \<times> jsnum" where
  "closest_step noiseValue terrain st =
     (case find (\<lambda>r. r_terrain r = terrain) terrainRanges of
        None \<Rightarrow> st
      | Some rg \<Rightarrow>
          (let terrainCenter = (r_min rg + r_max rg) / 2;
               distance = js_abs (js_sub noiseValue (Num terrainCenter))
           in if js_lt distance (snd st) then (terrain, distance) else st))"

definition closestTerrain_of :: "string list \<Rightarrow> jsnum \<Rightarrow> string" where
  "closestTerrain_of availableTerrains noiseValue =
     fst (fold (closest_step noiseValue) availableTerrains (hd availableTerrains, PosInf))"

text \<open>
  The callback of the inner \<open>row.map\<close> in the branch for several selected terrains.
\<close>

definition classify_cell ::
  "field \<Rightarrow> visibility \<Rightarrow> nat \<Rightarrow> nat \<Rightarrow> jsnum \<Rightarrow> string"
where
  "classify_cell m tv rowIndex colIndex noiseValue =
     (let originalTerrain = getTerrainType noiseValue
      in if vis_lookup tv originalTerrain then originalTerrain
         else if vis_lookup tv ''sand'' \<and> \<not> vis_lookup tv originalTerrain
                 \<and> originalTerrain = ''land''
                 \<and> checkNearWater m (int rowIndex) (int colIndex) 1
         then ''sand''
         else closestTerrain_of (availableTerrains_of tv) noiseValue)"

text \<open>
  The body of \<open>generateTerrainData\<close> after the noise map is generated: the terrain map
  of a noise map under an optional visibility object.
\<close>

definition terrainMap_of :: "field \<Rightarrow> visibility option \<Rightarrow> string list list" where
  "terrainMap_of m terrainVisibility =
     (case terrainVisibility of
        None \<Rightarrow> map (map getTerrainType) m
      | Some tv \<Rightarrow>
          (let availableTerrains = availableTerrains_of tv
           in if length availableTerrains = 0 then map (map (\<lambda>_. ''land'')) m
              else if length availableTerrains = 1
              then map (map (\<lambda>_. availableTerrains ! 0)) m
              else map (\<lambda>(rowIndex, row).
                          map (\<lambda>(colIndex, noiseValue).
                                 classify_cell m tv rowIndex colIndex noiseValue)
                              (enumerate 0 row))
                       (enumerate 0 m)))"

definition generateTerrainData :: "noise \<Rightarrow> MapConfig \<Rightarrow> visibility option \<Rightarrow> TerrainData" where
  "generateTerrainData noise2D config terrainVisibility =
     (let m = generateMap noise2D (width config) (height config)
      in \<lparr> noiseMap = m, terrainMap = terrainMap_of m terrainVisibility \<rparr>)"

section \<open>Path finding (pathfinding_quicker.ts)\<close>

text \<open>
  A search node. The parent reference is a value here: a node carries the chain of its
  ancestors, which is what path reconstruction walks.
\<close>

datatype Node =
  Node (node_x: int) (node_y: int) (node_g: jsnum) (node_h: jsnum) (node_f: jsnum)
       (node_parent: "Node option")

record PathResult =
  path :: "Node list"
  distance :: jsnum
  success :: bool
  computationTime :: "int option"

text \<open>
  The one exception the path finder can raise: reading a property of \<open>undefined\<close>.
\<close>

datatype error = TypeError

text \<open>
  The key of a node is the string \<open>`${x},${y}`\<close>. Two integer coordinates give the
  same string exactly when they are equal, so the pair of coordinates stands for the
  string.
\<close>

type_synonym key = "int \<times> int"

type_synonym grid = "string list list"

subsection \<open>The binary heap\<close>

record BinaryHeap =
  heap :: "Node list"
  nodeMap :: "key \<rightharpoonup> nat"

definition new_BinaryHeap :: BinaryHeap where
  "new_BinaryHeap = \<lparr> heap = [], nodeMap = Map.empty \<rparr>"

definition getKey :: "Node \<Rightarrow> key" where
  "getKey node = (node_x node, node_y node)"

text \<open>
  \<open>swap\<close>, \<open>heapifyUp\<close> and \<open>heapifyDown\<close> are private and are called with indices
  inside the heap only: \<open>push\<close> and \<open>pop\<close> establish that before they call them, and
  the loops keep it.
\<close>

definition swap :: "nat \<Rightarrow> nat \<Rightarrow> BinaryHeap \<Rightarrow> BinaryHeap" where
  "swap i j h =
     (let hp = (heap h)[i := heap h ! j, j := heap h ! i];
          nm1 = (nodeMap h)(getKey (hp ! i) \<mapsto> i);
          nm2 = nm1(getKey (hp ! j) \<mapsto> j)
      in \<lparr> heap = hp, nodeMap = nm2 \<rparr>)"

function heapifyUp :: "nat \<Rightarrow> BinaryHeap \<Rightarrow> BinaryHeap" where
  "heapifyUp index h =
     (if index > 0 then
        (let parentIndex = (index - 1) div 2
         in if js_ge (node_f (heap h ! index)) (node_f (heap h ! parentIndex)) then h
            else heapifyUp parentIndex (swap index parentIndex h))
      else h)"
  by pat_completeness auto
termination
  by (relation "measure fst") auto

declare heapifyUp.simps [simp del]

text \<open>The index of the smallest among a node and its children, as \<open>heapifyDown\<close> finds it.\<close>

definition smallest_of :: "nat \<Rightarrow> BinaryHeap \<Rightarrow> nat" where
  "smallest_of index h =
     (let smallest = index;
          left = 2 * index + 1;
          right = 2 * index + 2;
          smallest = (if left < length (heap h)
                         \<and> js_lt (node_f (heap h ! left)) (node_f (heap h ! smallest))
                      then left else smallest);
          smallest = (if right < length (heap h)
                         \<and> js_lt (node_f (heap h ! right)) (node_f (heap h ! smallest))
                      then right else smallest)
      in smallest)"

function heapifyDown :: "nat \<Rightarrow> BinaryHeap \<Rightarrow> BinaryHeap" where
  "heapifyDown index h =
     (let smallest = smallest_of index h
      in if smallest = index then h
         else heapifyDown smallest (swap index smallest h))"
  by pat_completeness auto
termination
  by (relation "measure (\<lambda>(index, h). length (heap h) - index)")
     (auto simp: smallest_of_def swap_def Let_def split: if_splits)

declare heapifyDown.simps [simp del]

text \<open>
  \<open>push\<close>: a node whose key is in the map replaces the entry at the recorded index and
  is moved up or down; reading \<open>this.heap[index].f\<close> at an index outside the heap would
  raise. A node with a new key is appended and moved up.
\<close>

definition push :: "Node \<Rightarrow> BinaryHeap \<Rightarrow> error + BinaryHeap" where
  "push node h =
     (let k = getKey node
      in case nodeMap h k of
           Some index \<Rightarrow>
             if index < length (heap h) then
               (let oldF = node_f (heap h ! index);
                    h1 = h\<lparr> heap := (heap h)[index := node] \<rparr>
                in if js_lt (node_f node) oldF then Inr (heapifyUp index h1)
                   else if js_gt (node_f node) oldF then Inr (heapifyDown index h1)
                   else Inr h1)
             else Inl TypeError
         | None \<Rightarrow>
             (let h1 = \<lparr> heap = heap h @ [node],
                        nodeMap = (nodeMap h)(k \<mapsto> length (heap h @ [node]) - 1) \<rparr>
              in Inr (heapifyUp (length (heap h1) - 1) h1)))"

text \<open>\<open>pop\<close>: the removed minimum (\<open>None\<close> for \<open>undefined\<close>) and the heap left.\<close>

definition pop :: "BinaryHeap \<Rightarrow> Node option \<times> BinaryHeap" where
  "pop h =
     (if length (heap h) = 0 then (None, h)
      else if length (heap h) = 1
      then (Some (last (heap h)), \<lparr> heap = butlast (heap h), nodeMap = Map.empty \<rparr>)
      else (let root = heap h ! 0;
                hp = (butlast (heap h))[0 := last (heap h)];
                nm1 = (nodeMap h)(getKey root := None);
                nm2 = nm1(getKey (hp ! 0) \<mapsto> 0)
            in (Some root, heapifyDown 0 \<lparr> heap = hp, nodeMap = nm2 \<rparr>)))"

definition isEmpty :: "BinaryHeap \<Rightarrow> bool" where
  "isEmpty h = (length (heap h) = 0)"

definition has :: "Node \<Rightarrow> BinaryHeap \<Rightarrow> bool" where
  "has node h = (nodeMap h (getKey node) \<noteq> None)"

subsection \<open>Heuristic, neighbours and movement cost\<close>

definition getHeuristic :: "Node \<Rightarrow> Node \<Rightarrow> jsnum" where
  "getHeuristic a b =
     (let dx = \<bar>node_x a - node_x b\<bar>;
          dy = \<bar>node_y a - node_y b\<bar>
      in Num (sqrt (real_of_int (dx * dx + dy * dy))))"

definition DIRECTIONS :: "(int \<times> int) list" where
  "DIRECTIONS =
     [(- 1, - 1), (- 1, 0), (- 1, 1),
      (0, - 1), (0, 1),
      (1, - 1), (1, 0), (1, 1)]"

text \<open>
  \<open>terrainMap[y][x]\<close> for a row \<open>y\<close> of the map: \<open>None\<close> is \<open>undefined\<close>, read
  beyond the end of a row shorter than the first one. Every read in the path finder
  follows a bounds check against the number of rows, so the row exists.
\<close>

definition terrain_at :: "grid \<Rightarrow> int \<Rightarrow> int \<Rightarrow> string option" where
  "terrain_at tmap x y =
     (if 0 \<le> y \<and> nat y < length tmap \<and> 0 \<le> x \<and> nat x < length (tmap ! nat y)
      then Some (tmap ! nat y ! nat x) else None)"

definition getNeighbors :: "Node \<Rightarrow> grid \<Rightarrow> int \<Rightarrow> int \<Rightarrow> Node list" where
  "getNeighbors node tmap mapWidth mapHeight =
     concat (map (\<lambda>(dx, dy).
        (let nx = node_x node + dx;
             ny = node_y node + dy
         in if nx < 0 \<or> ny < 0 \<or> nx \<ge> mapWidth \<or> ny \<ge> mapHeight then []
            else if getTerrainCost (terrain_at tmap nx ny) = PosInf then []
            else [Node nx ny (Num 0) (Num 0) (Num 0) (Some node)]))
        DIRECTIONS)"

text \<open>
  The cost of the move from \<open>current\<close> to \<open>neighbor\<close> (lines 299 to 305 of
  \<open>findPath\<close>): the terrain cost of the destination, times 1.414 for a diagonal move.
\<close>

definition movementCost_of :: "grid \<Rightarrow> Node \<Rightarrow> Node \<Rightarrow> jsnum" where
  "movementCost_of tmap current neighbor =
     (let terrain = terrain_at tmap (node_x neighbor) (node_y neighbor);
          terrainCost = getTerrainCost terrain;
          isDiagonal = (\<bar>node_x neighbor - node_x current\<bar> = 1
                        \<and> \<bar>node_y neighbor - node_y current\<bar> = 1)
      in if isDiagonal then js_mul terrainCost (Num 1.414) else terrainCost)"

subsection \<open>The search\<close>

record search_state =
  openSet :: BinaryHeap
  closedSet :: "key set"
  gScore :: "key \<rightharpoonup> jsnum"
  fScore :: "key \<rightharpoonup> jsnum"

text \<open>
  The loop over the neighbours of \<open>current\<close>. An exception raised by \<open>push\<close> leaves
  the loop.
\<close>

fun relax_neighbors ::
  "grid \<Rightarrow> Node \<Rightarrow> Node \<Rightarrow> Node list \<Rightarrow> search_state \<Rightarrow> error + search_state"
where
  "relax_neighbors tmap endNode current [] st = Inr st"
| "relax_neighbors tmap endNode current (neighbor # rest) st =
     (let neighborKey = getKey neighbor
      in if neighborKey \<in> closedSet st
         then relax_neighbors tmap endNode current rest st
         else
           (let movementCost = movementCost_of tmap current neighbor;
                newGScore = js_add (get_or (gScore st) (getKey current) (Num 0)) movementCost;
                currentG = get_or (gScore st) neighborKey PosInf
            in if js_lt newGScore currentG then
                 (let h = getHeuristic neighbor endNode;
                      f = js_add newGScore h;
                      neighborNode =
                        Node (node_x neighbor) (node_y neighbor) newGScore h f (Some current)
                  in case push neighborNode (openSet st) of
                       Inl e \<Rightarrow> Inl e
                     | Inr os \<Rightarrow>
                         relax_neighbors tmap endNode current rest
                           (st\<lparr> gScore := (gScore st)(neighborKey \<mapsto> newGScore),
                                fScore := (fScore st)(neighborKey \<mapsto> f),
                                openSet := os \<rparr>))
               else relax_neighbors tmap endNode current rest st))"

text \<open>Path reconstruction: the node and its ancestors, before the reversal.\<close>

fun parent_chain :: "Node \<Rightarrow> Node list" where
  "parent_chain (Node x y g h f None) = [Node x y g h f None]"
| "parent_chain (Node x y g h f (Some p)) = Node x y g h f (Some p) # parent_chain p"

text \<open>\<open>Math.round\<close> of a finite number.\<close>

definition js_round :: "real \<Rightarrow> int" where
  "js_round v = \<lfloor>v + 1 / 2\<rfloor>"

text \<open>
  One iteration of the main loop, test of the loop condition included: it either returns
  from \<open>findPath\<close> or goes on with a new state. \<open>startTime\<close> and \<open>endTime\<close> are the
  two readings of \<open>performance.now()\<close>.
\<close>

datatype step_result = Return "error + PathResult" | Continue search_state

definition astar_step ::
  "real \<Rightarrow> real \<Rightarrow> Node \<Rightarrow> grid \<Rightarrow> int \<Rightarrow> int \<Rightarrow> search_state \<Rightarrow> step_result"
where
  "astar_step startTime endTime endNode tmap mapWidth mapHeight st =
     (if isEmpty (openSet st) then
        Return (Inr \<lparr> path = [], distance = Num 0, success = False,
                      computationTime = Some (js_round (endTime - startTime)) \<rparr>)
      else
        (case pop (openSet st) of
           (None, os) \<Rightarrow> Return (Inl TypeError)
         | (Some current, os) \<Rightarrow>
             (let currentKey = getKey current
              in if currentKey \<in> closedSet st then Continue (st\<lparr> openSet := os \<rparr>)
                 else
                   (let st1 = st\<lparr> openSet := os, closedSet := insert currentKey (closedSet st) \<rparr>
                    in if node_x current = node_x endNode \<and> node_y current = node_y endNode
                       then Return (Inr \<lparr> path = rev (parent_chain current),
                                          distance = node_g current, success = True,
                                          computationTime =
                                            Some (js_round (endTime - startTime)) \<rparr>)
                       else
                         (case relax_neighbors tmap endNode current
                                 (getNeighbors current tmap mapWidth mapHeight) st1 of
                            Inl e \<Rightarrow> Return (Inl e)
                          | Inr st2 \<Rightarrow> Continue st2)))))"

function astar_loop ::
  "real \<Rightarrow> real \<Rightarrow> Node \<Rightarrow> grid \<Rightarrow> int \<Rightarrow> int \<Rightarrow> search_state \<Rightarrow> error + PathResult"
where
  "astar_loop startTime endTime endNode tmap mapWidth mapHeight st =
     (case astar_step startTime endTime endNode tmap mapWidth mapHeight st of
        Return r \<Rightarrow> r
      | Continue st1 \<Rightarrow> astar_loop startTime endTime endNode tmap mapWidth mapHeight st1)"
  by pat_completeness auto

text \<open>
  \<open>findPath\<close>. Reading \<open>terrainMap[0].length\<close> of a map without rows raises. The state
  before the loop is that after \<open>openSet.push(start)\<close>.
\<close>

definition initial_state :: "Node \<Rightarrow> BinaryHeap \<Rightarrow> search_state" where
  "initial_state start os =
     \<lparr> openSet = os, closedSet = {},
       gScore = [getKey start \<mapsto> Num 0],
       fScore = [getKey start \<mapsto> node_h start] \<rparr>"

definition findPath ::
  "real \<Rightarrow> real \<Rightarrow> int \<Rightarrow> int \<Rightarrow> int \<Rightarrow> int \<Rightarrow> grid \<Rightarrow> error + PathResult"
where
  "findPath startTime endTime startX startY endX endY tmap =
     (if tmap = [] then Inl TypeError
      else
        (let mapWidth = int (length (tmap ! 0));
             mapHeight = int (length tmap)
         in if startX < 0 \<or> startY < 0 \<or> startX \<ge> mapWidth \<or> startY \<ge> mapHeight
               \<or> endX < 0 \<or> endY < 0 \<or> endX \<ge> mapWidth \<or> endY \<ge> mapHeight
            then Inr \<lparr> path = [], distance = Num 0, success = False, computationTime = None \<rparr>
            else if getTerrainCost (terrain_at tmap startX startY) = PosInf
                    \<or> getTerrainCost (terrain_at tmap endX endY) = PosInf
            then Inr \<lparr> path = [], distance = Num 0, success = False, computationTime = None \<rparr>
            else if startX = endX \<and> startY = endY
            then Inr \<lparr> path = [Node startX startY (Num 0) (Num 0) (Num 0) None],
                       distance = Num 0, success = True,
                       computationTime = Some (js_round (endTime - startTime)) \<rparr>
            else
              (let start = Node startX startY (Num 0)
                             (getHeuristic (Node startX startY (Num 0) (Num 0) (Num 0) None)
                                           (Node endX endY (Num 0) (Num 0) (Num 0) None))
                             (Num 0) None;
                   endNode = Node endX endY (Num 0) (Num 0) (Num 0) None
               in case push start new_BinaryHeap of
                    Inl e \<Rightarrow> Inl e
                  | Inr os \<Rightarrow>
                      astar_loop startTime endTime endNode tmap mapWidth mapHeight
                        (initial_state start os))))"

section \<open>Example inputs\<close>


definition flat_noise :: noise where
  "flat_noise x y = 0"

text \<open>
  A 7 by 7 noise map in the land range (0.5) with one cell below the water boundary (0.1)
  at row 5, column 5, and two visibility objects: water off and everything else on, and
  the same with land off as well.
\<close>

definition beach_field :: field where
  "beach_field =
     (replicate 7 (replicate 7 (Num 0.5)))[5 := (replicate 7 (Num 0.5))[5 := Num 0.1]]"

definition beach_visibility :: visibility where
  "beach_visibility =
     [(''water'', False), (''sand'', True), (''land'', True),
      (''hills'', True), (''mountain'', True), (''snow'', True)]"

definition beach_visibility_no_land :: visibility where
  "beach_visibility_no_land =
     [(''water'', False), (''sand'', True), (''land'', False),
      (''hills'', True), (''mountain'', True), (''snow'', True)]"

section \<open>Auxiliary notions\<close>


text \<open>
  The invariant of the open set. The heap holds at most one node per coordinate, and the
  index map binds a key to an index exactly when the node in that slot of the heap has
  that key.
\<close>

definition index_consistent :: "BinaryHeap \<Rightarrow> bool" where
  "index_consistent h \<longleftrightarrow>
     (\<forall>k i. nodeMap h k = Some i \<longleftrightarrow> i < length (heap h) \<and> getKey (heap h ! i) = k)"

definition heap_inv :: "BinaryHeap \<Rightarrow> bool" where
  "heap_inv h \<longleftrightarrow> distinct (map getKey (heap h)) \<and> index_consistent h"


text \<open>The coordinates that a search state can still close.\<close>

definition open_cells :: "int \<Rightarrow> int \<Rightarrow> search_state \<Rightarrow> key set" where
  "open_cells w hgt st =
     (({0..<w} \<times> {0..<hgt}) \<union> getKey ` set (heap (openSet st))) - closedSet st"

text \<open>
  The contract of a result: the path, the distance and the success flag, without the
  elapsed time. An exception has no contract fields.
\<close>

definition contract :: "error + PathResult \<Rightarrow> error + Node list \<times> jsnum \<times> bool" where
  "contract r = map_sum id (\<lambda>p. (path p, distance p, success p)) r"

text \<open>A 2 by 2 map of land.\<close>

definition land_2x2 :: grid where
  "land_2x2 = [[''land'', ''land''], [''land'', ''land'']]"

text \<open>
  The cost of a sequence of moves through the given nodes, each move priced as the search
  prices it.
\<close>

fun path_cost :: "grid \<Rightarrow> Node list \<Rightarrow> jsnum" where
  "path_cost tmap (a # b # rest) = js_add (movementCost_of tmap a b) (path_cost tmap (b # rest))"
| "path_cost tmap _ = Num 0"

text \<open>A result with another elapsed time.\<close>

definition retime :: "int \<Rightarrow> error + PathResult \<Rightarrow> error + PathResult" where
  "retime t r = map_sum id (\<lambda>p. p\<lparr> computationTime := Some t \<rparr>) r"

text \<open>
  The nodes of the search from (0,0) to (1,1) on the 2 by 2 map of land: the start node,
  whose heuristic is the diagonal distance, the goal node as the search creates it from
  the start node, and the open set that holds the start node only.
\<close>

definition node_a :: Node where
  "node_a = Node 0 0 (Num 0) (Num (sqrt 2)) (Num 0) None"

definition node_b :: Node where
  "node_b = Node 1 1 (Num 1.414) (Num 0) (Num 1.414) (Some node_a)"


text \<open>The failed result of the early returns, which carries no elapsed time.\<close>

definition early_failure :: PathResult where
  "early_failure = \<lparr> path = [], distance = Num 0, success = False, computationTime = None \<rparr>"

section \<open>Cost table\<close>

text \<open>
  C6, as the table has it: water costs \<open>Infinity\<close>, each of the five other terrain types
  has a finite cost of at least 1, land is the cheapest of them, and the costs do not
  decrease along land, hills, mountain, snow. Sand (3) costs more than land (1) and
  hills (2), so the costs are not monotone over the whole elevation order.
\<close>

theorem cost_table_shape:
  "getTerrainCost (Some ''water'') = PosInf
   \<and> list_all (\<lambda>t. finite_ge_one (getTerrainCost (Some t))) (tl getTerrainOrder)
   \<and> list_all (\<lambda>t. js_le (getTerrainCost (Some ''land'')) (getTerrainCost (Some t)))
       (tl getTerrainOrder)
   \<and> costs_nondecreasing (drop 2 getTerrainOrder)
   \<and> getTerrainCost (Some ''sand'') = Num 3
   \<and> getTerrainCost (Some ''land'') = Num 1"
  by (simp add: getTerrainCost_def TERRAIN_DEFINITIONS_def getTerrainOrder_def js_le_def)

text \<open>
  C6 as stated fails: along sand, land, hills, mountain, snow the cost drops from
  sand to land.
\<close>

theorem cost_table_not_monotone:
  "\<not> costs_nondecreasing (tl getTerrainOrder)"
  by (simp add: getTerrainCost_def TERRAIN_DEFINITIONS_def getTerrainOrder_def js_le_def)

section \<open>Default classification\<close>

text \<open>
  C7: for every number, \<open>getTerrainType\<close> returns the first category in ascending
  boundary order whose boundary the value is strictly below, and snow for a value at or
  above the highest boundary; it is defined on every input.
\<close>

theorem getTerrainType_first_boundary:
  "getTerrainType v = first_boundary_above v
   \<and> (js_ge v (Num 0.95) \<longrightarrow> getTerrainType v = ''snow'')"
  by (cases v)
     (simp_all add: getTerrainType_def first_boundary_above_def ascending_boundaries_def
        TERRAIN_BOUNDARIES_def)

theorem getTerrainType_first_boundary_witness:
  "js_ge (Num 0.97) (Num 0.95) \<and> getTerrainType (Num 0.97) = ''snow''
   \<and> getTerrainType (Num 0.5) = ''land''"
  using getTerrainType_first_boundary [of "Num 0.97"] getTerrainType_first_boundary [of "Num 0.5"]
  by (simp add: first_boundary_above_def ascending_boundaries_def)
section \<open>Noise field normalisation and dimensions\<close>

















text \<open>
  C8, as the code has it: generation never fails and performs no validation of the
  dimensions. For every width and height the result has \<open>nat height\<close> rows of
  \<open>nat width\<close> cells, in the noise map and in the terrain map: a width-by-height
  field for positive dimensions, and a field without cells for a non-positive one.
\<close>

theorem generateTerrainData_dimensions:
  "length (noiseMap (generateTerrainData noise2D config tv)) = nat (height config)
   \<and> list_all (\<lambda>row. length row = nat (width config))
        (noiseMap (generateTerrainData noise2D config tv))
   \<and> length (terrainMap (generateTerrainData noise2D config tv)) = nat (height config)
   \<and> list_all (\<lambda>row. length row = nat (width config))
        (terrainMap (generateTerrainData noise2D config tv))"
  by (auto simp add: generateTerrainData_def generateMap_def Let_def second_pass_def
      first_pass_def terrainMap_of_def list_all_iff in_set_conv_nth nth_enumerate_eq
      split: option.splits)

text \<open>
  C8 as stated fails: with width 0 the call returns a terrain data object of two empty
  rows, it does not signal an error.
\<close>

theorem generateTerrainData_zero_width:
  "generateTerrainData flat_noise \<lparr> width = 0, height = 2, cellSize = 3 \<rparr> None
     = \<lparr> noiseMap = [[], []], terrainMap = [[], []] \<rparr>"
  by (simp add: generateTerrainData_def generateMap_def first_pass_def second_pass_def
      terrainMap_of_def Let_def upt_rec)
section \<open>Filtered classification\<close>

lemma vis_lookup_available:
  assumes "vis_lookup tv t"
  shows "t \<in> set (availableTerrains_of tv)"
proof -
  from assms have "map_of tv t = Some True"
    by (simp add: vis_lookup_def split: option.splits)
  then have "(t, True) \<in> set tv" by (rule map_of_SomeD)
  then have "t \<in> fst ` set tv" by force
  with assms show ?thesis by (simp add: availableTerrains_of_def)
qed

lemma closest_step_fst:
  "fst (closest_step v t st) = fst st \<or> fst (closest_step v t st) = t"
  by (simp add: closest_step_def Let_def split: option.splits)

lemma fold_closest_step_member:
  "fst st \<in> A \<Longrightarrow> set ts \<subseteq> A \<Longrightarrow> fst (fold (closest_step v) ts st) \<in> A"
proof (induction ts arbitrary: st)
  case Nil
  then show ?case by simp
next
  case (Cons t ts)
  have "fst (closest_step v t st) \<in> A"
    using closest_step_fst [of v t st] Cons.prems by auto
  with Cons show ?case by simp
qed

lemma closestTerrain_of_member:
  "avail \<noteq> [] \<Longrightarrow> closestTerrain_of avail v \<in> set avail"
  unfolding closestTerrain_of_def by (rule fold_closest_step_member) simp_all

lemma classify_cell_member:
  "availableTerrains_of tv \<noteq> [] \<Longrightarrow> classify_cell m tv r c v \<in> set (availableTerrains_of tv)"
  by (simp add: classify_cell_def Let_def vis_lookup_available closestTerrain_of_member)

lemma terrainMap_of_cell:
  assumes "1 < length (availableTerrains_of tv)" "r < length m" "c < length (m ! r)"
  shows "terrainMap_of m (Some tv) ! r ! c = classify_cell m tv r c (m ! r ! c)"
proof -
  from assms(1) have "availableTerrains_of tv \<noteq> []" "length (availableTerrains_of tv) \<noteq> 1"
    by auto
  then show ?thesis
    using assms(2,3) by (simp add: terrainMap_of_def Let_def nth_enumerate_eq)
qed

lemma terrainMap_of_length: "length (terrainMap_of m tvo) = length m"
  by (simp add: terrainMap_of_def Let_def split: option.splits)

lemma terrainMap_of_row_length:
  "r < length m \<Longrightarrow> length (terrainMap_of m tvo ! r) = length (m ! r)"
  by (simp add: terrainMap_of_def Let_def nth_enumerate_eq split: option.splits)

text \<open>
  C4: for every noise map and visibility object, the terrain map has the rows of the
  noise map and each of its rows has the cells of the row of the noise map, so every
  cell is classified; and for every cell of the noise map, its terrain is land if no
  terrain is enabled, the enabled terrain if exactly one is enabled, and an enabled
  terrain whenever some terrain is enabled. This terrain map is the one that
  \<open>generateTerrainData\<close> returns for the noise map it generated.
\<close>

theorem classification_within_enabled:
  "length (terrainMap_of m (Some tv)) = length m
   \<and> (r < length m \<longrightarrow> length (terrainMap_of m (Some tv) ! r) = length (m ! r))
   \<and> (r < length m \<longrightarrow> c < length (m ! r) \<longrightarrow> availableTerrains_of tv = [] \<longrightarrow>
        terrainMap_of m (Some tv) ! r ! c = ''land'')
   \<and> (r < length m \<longrightarrow> c < length (m ! r) \<longrightarrow> availableTerrains_of tv = [only] \<longrightarrow>
        terrainMap_of m (Some tv) ! r ! c = only)
   \<and> (r < length m \<longrightarrow> c < length (m ! r) \<longrightarrow> availableTerrains_of tv \<noteq> [] \<longrightarrow>
        terrainMap_of m (Some tv) ! r ! c \<in> set (availableTerrains_of tv))
   \<and> terrainMap (generateTerrainData noise2D config (Some tv))
       = terrainMap_of (noiseMap (generateTerrainData noise2D config (Some tv))) (Some tv)"
proof (intro conjI impI)
  show "length (terrainMap_of m (Some tv)) = length m"
    by (rule terrainMap_of_length)
next
  assume "r < length m"
  then show "length (terrainMap_of m (Some tv) ! r) = length (m ! r)"
    by (rule terrainMap_of_row_length)
next
  assume "r < length m" "c < length (m ! r)" "availableTerrains_of tv = []"
  then show "terrainMap_of m (Some tv) ! r ! c = ''land''"
    by (simp add: terrainMap_of_def)
next
  assume "r < length m" "c < length (m ! r)" "availableTerrains_of tv = [only]"
  then show "terrainMap_of m (Some tv) ! r ! c = only"
    by (simp add: terrainMap_of_def)
next
  assume rc: "r < length m" "c < length (m ! r)" and ne: "availableTerrains_of tv \<noteq> []"
  show "terrainMap_of m (Some tv) ! r ! c \<in> set (availableTerrains_of tv)"
  proof (cases "length (availableTerrains_of tv) = 1")
    case True
    then obtain t where "availableTerrains_of tv = [t]"
      by (cases "availableTerrains_of tv") auto
    with rc show ?thesis by (simp add: terrainMap_of_def)
  next
    case False
    with ne have "1 < length (availableTerrains_of tv)"
      by (cases "availableTerrains_of tv") auto
    from terrainMap_of_cell [OF this rc] ne show ?thesis
      by (simp add: classify_cell_member)
  qed
next
  show "terrainMap (generateTerrainData noise2D config (Some tv))
       = terrainMap_of (noiseMap (generateTerrainData noise2D config (Some tv))) (Some tv)"
    by (simp add: generateTerrainData_def Let_def)
qed

theorem classification_within_enabled_witness:
  "(5::nat) < length beach_field \<and> (4::nat) < length (beach_field ! 5)
   \<and> length (terrainMap_of beach_field (Some beach_visibility)) = length beach_field
   \<and> length (terrainMap_of beach_field (Some beach_visibility) ! 5) = length (beach_field ! 5)
   \<and> availableTerrains_of [(''water'', False)] = []
   \<and> terrainMap_of beach_field (Some [(''water'', False)]) ! 5 ! 4 = ''land''
   \<and> availableTerrains_of [(''water'', False), (''snow'', True)] = [''snow'']
   \<and> terrainMap_of beach_field (Some [(''water'', False), (''snow'', True)]) ! 5 ! 4 = ''snow''
   \<and> availableTerrains_of beach_visibility \<noteq> []
   \<and> terrainMap_of beach_field (Some beach_visibility) ! 5 ! 4
        \<in> set (availableTerrains_of beach_visibility)"
proof -
  have a: "availableTerrains_of [(''water'', False)] = []"
    and b: "availableTerrains_of [(''water'', False), (''snow'', True)] = [''snow'']"
    and c: "availableTerrains_of beach_visibility \<noteq> []"
    by (simp_all add: availableTerrains_of_def vis_lookup_def beach_visibility_def)
  have row: "beach_field ! 5 = (replicate 7 (Num 0.5))[5 := Num 0.1]"
    by (simp add: beach_field_def)
  have len: "(5::nat) < length beach_field" "(4::nat) < length (beach_field ! 5)"
    by (simp_all add: row) (simp add: beach_field_def)
  show ?thesis
    using classification_within_enabled [where tv = "[(''water'', False)]" and m = beach_field
          and r = 5 and c = 4]
      classification_within_enabled [where tv = "[(''water'', False), (''snow'', True)]"
          and m = beach_field and r = 5 and c = 4 and only = "''snow''"]
      classification_within_enabled [where tv = beach_visibility and m = beach_field
          and r = 5 and c = 4]
      a b c len
    by simp
qed

lemma checkNearWater_neighbour:
  assumes "r' < length m" "c' < length (m ! r')" "c' < length (m ! 0)"
    and adj: "\<bar>int r' - int r\<bar> + \<bar>int c' - int c\<bar> = 1"
    and water: "js_lt (m ! r' ! c') (Num 0.40)"
  shows "checkNearWater m (int r) (int c) 1"
proof -
  define dr where "dr = int r' - int r"
  define dc where "dc = int c' - int c"
  from adj have "(dr = 0 \<and> (dc = 1 \<or> dc = - 1)) \<or> ((dr = 1 \<or> dr = - 1) \<and> dc = 0)"
    unfolding dr_def dc_def by linarith
  then have "dr\<^sup>2 + dc\<^sup>2 = 1" by auto
  then have sq: "(int r' - int r)\<^sup>2 + (int c' - int c)\<^sup>2 = 1"
    unfolding dr_def dc_def .
  have rin: "int r' \<in> set [max 0 (int r - 1) .. min (int (length m) - 1) (int r + 1)]"
    using assms(1) adj by auto
  have cin: "int c' \<in> set [max 0 (int c - 1) .. min (int (length (m ! 0)) - 1) (int c + 1)]"
    using assms(3) adj by auto
  have nc: "\<not> (int r' = int r \<and> int c' = int c)" using adj by auto
  have at: "noise_at m (int r') (int c') = Some (m ! r' ! c')"
    using assms(1,2) by (simp add: noise_at_def)
  show ?thesis
    unfolding checkNearWater_def Let_def list_ex_iff
    apply (rule bexI [OF _ rin])
    apply (rule bexI [OF _ cin])
    using nc sq at water by simp
qed

text \<open>
  C5, as the code has it: when sand is enabled and land is not, a cell whose noise is in
  the land range and which has an orthogonal neighbour (Euclidean distance 1) with noise
  below 0.40 inside the map becomes sand.
\<close>

theorem beach_exception:
  assumes sand: "vis_lookup tv ''sand''"
    and land: "\<not> vis_lookup tv ''land''"
    and cell: "r < length m" "c < length (m ! r)"
    and natural: "getTerrainType (m ! r ! c) = ''land''"
    and nb: "r' < length m" "c' < length (m ! r')" "c' < length (m ! 0)"
    and adj: "\<bar>int r' - int r\<bar> + \<bar>int c' - int c\<bar> = 1"
    and water: "js_lt (m ! r' ! c') (Num 0.40)"
  shows "terrainMap_of m (Some tv) ! r ! c = ''sand''"
proof -
  have mem: "''sand'' \<in> set (availableTerrains_of tv)"
    using sand by (rule vis_lookup_available)
  consider (one) t where "availableTerrains_of tv = [t]"
    | (many) "1 < length (availableTerrains_of tv)"
    using mem by (cases "availableTerrains_of tv" rule: list.exhaust) (auto simp: Suc_lessI)
  then show ?thesis
  proof cases
    case one
    with mem have "t = ''sand''" by simp
    with one cell show ?thesis by (simp add: terrainMap_of_def)
  next
    case many
    have near: "checkNearWater m (int r) (int c) 1"
      by (rule checkNearWater_neighbour [OF nb adj water])
    show ?thesis
      unfolding terrainMap_of_cell [OF many cell]
      using sand land natural near by (simp add: classify_cell_def)
  qed
qed

theorem beach_exception_witness:
  "vis_lookup beach_visibility_no_land ''sand''
   \<and> \<not> vis_lookup beach_visibility_no_land ''land''
   \<and> getTerrainType (beach_field ! 5 ! 4) = ''land''
   \<and> js_lt (beach_field ! 5 ! 5) (Num 0.40)
   \<and> terrainMap_of beach_field (Some beach_visibility_no_land) ! 5 ! 4 = ''sand''"
proof -
  have row: "beach_field ! 5 = (replicate 7 (Num 0.5))[5 := Num 0.1]"
    by (simp add: beach_field_def)
  have row0: "beach_field ! 0 = replicate 7 (Num 0.5)"
    by (simp add: beach_field_def)
  have hyps: "vis_lookup beach_visibility_no_land ''sand''"
    "\<not> vis_lookup beach_visibility_no_land ''land''"
    "getTerrainType (beach_field ! 5 ! 4) = ''land''"
    "js_lt (beach_field ! 5 ! 5) (Num 0.40)"
    by (simp_all add: row vis_lookup_def beach_visibility_no_land_def getTerrainType_def
        TERRAIN_BOUNDARIES_def)
  have len: "(5::nat) < length beach_field" "(4::nat) < length (beach_field ! 5)"
    "(5::nat) < length (beach_field ! 5)" "(5::nat) < length (beach_field ! 0)"
    by (simp_all add: row row0) (simp add: beach_field_def)
  have "terrainMap_of beach_field (Some beach_visibility_no_land) ! 5 ! 4 = ''sand''"
    by (rule beach_exception [OF hyps(1,2) len(1,2) hyps(3) len(1,3,4) _ hyps(4)]) simp
  with hyps show ?thesis by simp
qed

text \<open>
  C5 as stated fails: with land enabled, the land cell next to the water cell at (5,5)
  keeps its natural terrain, land.
\<close>

theorem beach_land_stays_land:
  "terrainMap_of beach_field (Some beach_visibility) ! 5 ! 4 = ''land''"
proof -
  have avail: "availableTerrains_of beach_visibility
                 = [''sand'', ''land'', ''hills'', ''mountain'', ''snow'']"
    by (simp add: availableTerrains_of_def beach_visibility_def vis_lookup_def)
  have row: "beach_field ! 5 = (replicate 7 (Num 0.5))[5 := Num 0.1]"
    by (simp add: beach_field_def)
  have "terrainMap_of beach_field (Some beach_visibility) ! 5 ! 4
          = classify_cell beach_field beach_visibility 5 4 (beach_field ! 5 ! 4)"
    by (rule terrainMap_of_cell) (simp_all add: avail row, simp add: beach_field_def)
  also have "\<dots> = ''land''"
    by (simp add: row classify_cell_def getTerrainType_def TERRAIN_BOUNDARIES_def
        vis_lookup_def beach_visibility_def)
  finally show ?thesis .
qed
section \<open>Termination of the search\<close>

text \<open>
  The heap operations neither lose nor invent nodes, whatever the index map holds. Every
  iteration of the main loop that goes on either closes a coordinate that was still open
  or shortens the heap, so the loop ends.
\<close>

lemma length_heap_swap [simp]: "length (heap (swap i j h)) = length (heap h)"
  by (simp add: swap_def Let_def)

lemma set_heap_swap:
  "i < length (heap h) \<Longrightarrow> j < length (heap h) \<Longrightarrow> set (heap (swap i j h)) = set (heap h)"
  by (simp add: swap_def Let_def set_swap)

lemma heapifyUp_set_length:
  "index < length (heap h) \<Longrightarrow>
     set (heap (heapifyUp index h)) = set (heap h)
     \<and> length (heap (heapifyUp index h)) = length (heap h)"
proof (induction index h rule: heapifyUp.induct)
  case (1 index h)
  show ?case
  proof (cases "index > 0 \<and> \<not> js_ge (node_f (heap h ! index)) (node_f (heap h ! ((index - 1) div 2)))")
    case True
    then have p: "(index - 1) div 2 < length (heap h)" using "1.prems" by auto
    have "set (heap (heapifyUp ((index - 1) div 2) (swap index ((index - 1) div 2) h)))
            = set (heap (swap index ((index - 1) div 2) h))
          \<and> length (heap (heapifyUp ((index - 1) div 2) (swap index ((index - 1) div 2) h)))
            = length (heap (swap index ((index - 1) div 2) h))"
      using True p by (intro "1.IH") auto
    then show ?thesis
      using True p "1.prems" by (subst (1 2) heapifyUp.simps) (simp add: Let_def set_heap_swap)
  next
    case False
    then show ?thesis by (subst (1 2) heapifyUp.simps) (auto simp: Let_def)
  qed
qed

lemma smallest_of_cases:
  "smallest_of index h = index \<or> (index < smallest_of index h \<and> smallest_of index h < length (heap h))"
  by (auto simp: smallest_of_def Let_def)

lemma heapifyDown_set_length:
  "set (heap (heapifyDown index h)) = set (heap h)
   \<and> length (heap (heapifyDown index h)) = length (heap h)"
proof (induction index h rule: heapifyDown.induct)
  case (1 index h)
  show ?case
  proof (cases "smallest_of index h = index")
    case True
    then show ?thesis by (subst (1 2) heapifyDown.simps) (simp add: Let_def)
  next
    case False
    with smallest_of_cases [of index h]
    have lt: "index < smallest_of index h" "smallest_of index h < length (heap h)" by auto
    have "set (heap (heapifyDown (smallest_of index h) (swap index (smallest_of index h) h)))
            = set (heap (swap index (smallest_of index h) h))
          \<and> length (heap (heapifyDown (smallest_of index h) (swap index (smallest_of index h) h)))
            = length (heap (swap index (smallest_of index h) h))"
      using False by (intro "1.IH") auto
    then show ?thesis
      using False lt by (subst (1 2) heapifyDown.simps) (simp add: Let_def set_heap_swap)
  qed
qed

lemma push_set:
  assumes "push node h = Inr h'"
  shows "set (heap h') \<subseteq> insert node (set (heap h))"
proof (cases "nodeMap h (getKey node)")
  case None
  with assms have "h' = heapifyUp (length (heap h))
                     \<lparr> heap = heap h @ [node],
                       nodeMap = (nodeMap h)(getKey node \<mapsto> length (heap h)) \<rparr>"
    by (simp add: push_def Let_def)
  then show ?thesis by (simp add: heapifyUp_set_length)
next
  case (Some index)
  with assms have lt: "index < length (heap h)"
    by (simp add: push_def Let_def split: if_splits)
  define h1 where "h1 = h\<lparr> heap := (heap h)[index := node] \<rparr>"
  have h1: "set (heap h1) \<subseteq> insert node (set (heap h))" "index < length (heap h1)"
    using lt by (simp_all add: h1_def set_update_subset_insert)
  from assms Some lt have "h' = heapifyUp index h1 \<or> h' = heapifyDown index h1 \<or> h' = h1"
    by (auto simp: push_def Let_def h1_def split: if_splits)
  then show ?thesis
    using h1 by (auto simp: heapifyUp_set_length heapifyDown_set_length)
qed

lemma pop_props:
  assumes "pop h = (Some c, h')"
  shows "c \<in> set (heap h)" "set (heap h') \<subseteq> set (heap h)" "length (heap h') < length (heap h)"
proof -
  have ne: "heap h \<noteq> []" using assms by (auto simp: pop_def)
  show "c \<in> set (heap h)"
    using assms ne by (auto simp: pop_def Let_def hd_conv_nth [symmetric] split: if_splits)
  have sub: "set ((butlast (heap h))[0 := last (heap h)]) \<subseteq> set (heap h)"
    using ne by (meson in_set_butlastD insert_subset last_in_set set_update_subset_insert subsetI subset_trans)
  show "set (heap h') \<subseteq> set (heap h)"
    using assms ne sub
    by (auto simp: pop_def Let_def heapifyDown_set_length split: if_splits dest: in_set_butlastD)
  have one: "butlast xs = []" if "length xs = Suc 0" for xs :: "Node list"
    using that by (cases xs) auto
  have "length (heap h') = length (heap h) - 1"
    using assms ne
    by (auto simp: pop_def Let_def heapifyDown_set_length one split: if_splits)
  then show "length (heap h') < length (heap h)"
    using ne by (cases "heap h") auto
qed

lemma relax_neighbors_props:
  assumes "relax_neighbors tmap endNode current nbs st = Inr st'"
  shows "closedSet st' = closedSet st
         \<and> getKey ` set (heap (openSet st'))
             \<subseteq> getKey ` set (heap (openSet st)) \<union> getKey ` set nbs"
  using assms
proof (induction nbs arbitrary: st)
  case Nil
  then show ?case by simp
next
  case (Cons nb rest)
  show ?case
  proof (cases "getKey nb \<in> closedSet st
                \<or> \<not> js_lt (js_add (get_or (gScore st) (getKey current) (Num 0))
                                  (movementCost_of tmap current nb))
                          (get_or (gScore st) (getKey nb) PosInf)")
    case True
    then have "relax_neighbors tmap endNode current rest st = Inr st'"
      using Cons.prems by (auto simp: Let_def split: if_splits)
    from Cons.IH [OF this] show ?thesis by auto
  next
    case False
    define newG where "newG = js_add (get_or (gScore st) (getKey current) (Num 0))
                                (movementCost_of tmap current nb)"
    define hh where "hh = getHeuristic nb endNode"
    define nn where "nn = Node (node_x nb) (node_y nb) newG hh (js_add newG hh) (Some current)"
    from False Cons.prems obtain os where
      os: "push nn (openSet st) = Inr os"
      and rest: "relax_neighbors tmap endNode current rest
                   (st\<lparr> gScore := (gScore st)(getKey nb \<mapsto> newG),
                        fScore := (fScore st)(getKey nb \<mapsto> js_add newG hh),
                        openSet := os \<rparr>) = Inr st'"
      by (auto simp: Let_def newG_def hh_def nn_def split: sum.splits if_splits)
    have k: "getKey nn = getKey nb" by (simp add: nn_def getKey_def)
    have "getKey ` set (heap os) \<subseteq> insert (getKey nb) (getKey ` set (heap (openSet st)))"
      using push_set [OF os] k by auto
    moreover from Cons.IH [OF rest]
    have "closedSet st' = closedSet st"
      "getKey ` set (heap (openSet st')) \<subseteq> getKey ` set (heap os) \<union> getKey ` set rest"
      by simp_all
    ultimately show ?thesis by (simp, blast)
  qed
qed

lemma getNeighbors_in_bounds:
  "nb \<in> set (getNeighbors node tmap w hgt) \<Longrightarrow> getKey nb \<in> {0..<w} \<times> {0..<hgt}"
  by (auto simp: getNeighbors_def Let_def getKey_def split: if_splits)

lemma finite_open_cells: "finite (open_cells w hgt st)"
  by (simp add: open_cells_def)

lemma astar_step_decreases:
  assumes "astar_step t0 t1 endNode tmap w hgt st = Continue st'"
  shows "card (open_cells w hgt st') < card (open_cells w hgt st)
         \<or> (card (open_cells w hgt st') \<le> card (open_cells w hgt st)
             \<and> length (heap (openSet st')) < length (heap (openSet st)))"
proof -
  from assms obtain current os where p: "pop (openSet st) = (Some current, os)"
    by (auto simp: astar_step_def Let_def split: if_splits prod.splits option.splits)
  note pp = pop_props [OF p]
  show ?thesis
  proof (cases "getKey current \<in> closedSet st")
    case True
    with assms p have st': "st' = st\<lparr> openSet := os \<rparr>"
      by (auto simp: astar_step_def Let_def split: if_splits)
    have "open_cells w hgt st' \<subseteq> open_cells w hgt st"
      using pp(2) by (auto simp: open_cells_def st')
    then have "card (open_cells w hgt st') \<le> card (open_cells w hgt st)"
      by (intro card_mono finite_open_cells)
    with pp(3) show ?thesis by (simp add: st')
  next
    case False
    define st1 where "st1 = st\<lparr> openSet := os, closedSet := insert (getKey current) (closedSet st) \<rparr>"
    from assms p False have r: "relax_neighbors tmap endNode current
                                  (getNeighbors current tmap w hgt) st1 = Inr st'"
      by (auto simp: astar_step_def Let_def st1_def split: if_splits sum.splits)
    from relax_neighbors_props [OF r]
    have c: "closedSet st' = insert (getKey current) (closedSet st)"
      and k: "getKey ` set (heap (openSet st'))
                \<subseteq> getKey ` set (heap os) \<union> getKey ` set (getNeighbors current tmap w hgt)"
      by (simp_all add: st1_def)
    have sub: "open_cells w hgt st' \<subseteq> open_cells w hgt st - {getKey current}"
    proof
      fix x assume x: "x \<in> open_cells w hgt st'"
      then have nc: "x \<noteq> getKey current" "x \<notin> closedSet st"
        by (simp_all add: open_cells_def c)
      from x have "x \<in> {0..<w} \<times> {0..<hgt} \<or> x \<in> getKey ` set (heap (openSet st'))"
        by (simp add: open_cells_def)
      then have "x \<in> {0..<w} \<times> {0..<hgt} \<or> x \<in> getKey ` set (heap (openSet st))"
      proof
        assume "x \<in> {0..<w} \<times> {0..<hgt}"
        then show ?thesis ..
      next
        assume "x \<in> getKey ` set (heap (openSet st'))"
        with k have "x \<in> getKey ` set (heap os)
                     \<or> x \<in> getKey ` set (getNeighbors current tmap w hgt)" by blast
        then show ?thesis
        proof
          assume "x \<in> getKey ` set (heap os)"
          with pp(2) show ?thesis by blast
        next
          assume "x \<in> getKey ` set (getNeighbors current tmap w hgt)"
          then show ?thesis using getNeighbors_in_bounds by blast
        qed
      qed
      with nc show "x \<in> open_cells w hgt st - {getKey current}"
        by (simp add: open_cells_def)
    qed
    have mem: "getKey current \<in> open_cells w hgt st"
      using pp(1) False by (auto simp: open_cells_def)
    have "open_cells w hgt st' \<subset> open_cells w hgt st"
      using sub mem by blast
    then show ?thesis
      by (intro disjI1 psubset_card_mono finite_open_cells)
  qed
qed

termination astar_loop
  apply (relation "inv_image (less_than <*lex*> less_than)
                  (\<lambda>(t0, t1, e, tmap, w, hgt, st).
                     (card (open_cells w hgt st), length (heap (openSet st))))")
   apply (intro wf_inv_image wf_lex_prod wf_less_than)
  apply (drule astar_step_decreases)
  apply auto
  done

declare astar_loop.simps [simp del]

section \<open>The invariant of the open set\<close>

lemma heap_inv_iff:
  "heap_inv h \<longleftrightarrow>
     (\<forall>i < length (heap h). nodeMap h (getKey (heap h ! i)) = Some i)
     \<and> (\<forall>k. k \<notin> getKey ` set (heap h) \<longrightarrow> nodeMap h k = None)"
  (is "?L \<longleftrightarrow> ?A \<and> ?B")
proof
  assume L: ?L
  then have ic: "\<And>k i. nodeMap h k = Some i \<longleftrightarrow> i < length (heap h) \<and> getKey (heap h ! i) = k"
    unfolding heap_inv_def index_consistent_def by blast
  have ?A using ic by blast
  moreover have ?B
  proof (intro allI impI)
    fix k assume k: "k \<notin> getKey ` set (heap h)"
    show "nodeMap h k = None"
    proof (cases "nodeMap h k")
      case (Some i)
      with ic have "i < length (heap h)" "getKey (heap h ! i) = k" by auto
      then have "k \<in> getKey ` set (heap h)" by (metis imageI nth_mem)
      with k show ?thesis by simp
    qed simp
  qed
  ultimately show "?A \<and> ?B" ..
next
  assume R: "?A \<and> ?B"
  then have A: "\<And>i. i < length (heap h) \<Longrightarrow> nodeMap h (getKey (heap h ! i)) = Some i"
    and B: "\<And>k. k \<notin> getKey ` set (heap h) \<Longrightarrow> nodeMap h k = None" by auto
  have d: "distinct (map getKey (heap h))"
    unfolding distinct_conv_nth
  proof (intro allI impI)
    fix i j assume "i < length (map getKey (heap h))" "j < length (map getKey (heap h))" "i \<noteq> j"
    then show "map getKey (heap h) ! i \<noteq> map getKey (heap h) ! j"
      using A [of i] A [of j] by auto
  qed
  have "nodeMap h k = Some i \<longleftrightarrow> i < length (heap h) \<and> getKey (heap h ! i) = k" for k i
  proof
    assume s: "nodeMap h k = Some i"
    have "k \<in> getKey ` set (heap h)"
    proof (rule ccontr)
      assume "k \<notin> getKey ` set (heap h)"
      from B [OF this] s show False by simp
    qed
    then obtain j where j: "j < length (heap h)" "getKey (heap h ! j) = k"
      by (auto simp: in_set_conv_nth)
    with A [of j] s show "i < length (heap h) \<and> getKey (heap h ! i) = k" by auto
  next
    assume "i < length (heap h) \<and> getKey (heap h ! i) = k"
    then show "nodeMap h k = Some i" using A by auto
  qed
  with d show ?L unfolding heap_inv_def index_consistent_def by blast
qed

lemma heap_inv_new: "heap_inv new_BinaryHeap"
  by (simp add: heap_inv_iff new_BinaryHeap_def)

lemma heap_inv_keys_inj:
  assumes "heap_inv h" "i < length (heap h)" "j < length (heap h)"
    "getKey (heap h ! i) = getKey (heap h ! j)"
  shows "i = j"
  using assms by (metis heap_inv_iff option.inject)

lemma heap_inv_swap:
  assumes inv: "heap_inv h" and i: "i < length (heap h)" and j: "j < length (heap h)"
  shows "heap_inv (swap i j h)"
proof (cases "i = j")
  case True
  have "swap i i h = h"
    using inv i by (simp add: swap_def Let_def heap_inv_iff fun_upd_idem)
  with True inv show ?thesis by simp
next
  case False
  define xs where "xs = heap h"
  define hp where "hp = xs[i := xs ! j, j := xs ! i]"
  have A: "\<And>n. n < length xs \<Longrightarrow> nodeMap h (getKey (xs ! n)) = Some n"
    and B: "\<And>k. k \<notin> getKey ` set xs \<Longrightarrow> nodeMap h k = None"
    using inv by (auto simp: heap_inv_iff xs_def)
  have ne: "getKey (xs ! i) \<noteq> getKey (xs ! j)"
    using heap_inv_keys_inj [OF inv i j] False by (auto simp: xs_def)
  have hpi: "hp ! i = xs ! j" and hpj: "hp ! j = xs ! i"
    using i j False by (simp_all add: hp_def xs_def)
  have hpo: "hp ! n = xs ! n" if "n \<noteq> i" "n \<noteq> j" for n
    using that by (simp add: hp_def)
  have sw: "swap i j h = \<lparr> heap = hp, nodeMap = (nodeMap h)(getKey (xs ! j) \<mapsto> i, getKey (xs ! i) \<mapsto> j) \<rparr>"
    using hpi hpj by (simp add: swap_def Let_def hp_def xs_def)
  have set_hp: "set hp = set xs"
    using i j by (simp add: hp_def xs_def set_swap)
  show ?thesis
    unfolding heap_inv_iff sw
  proof (intro conjI allI impI)
    fix n assume "n < length (heap \<lparr> heap = hp, nodeMap = (nodeMap h)(getKey (xs ! j) \<mapsto> i, getKey (xs ! i) \<mapsto> j) \<rparr>)"
    then have n: "n < length xs" by (simp add: hp_def)
    consider "n = i" | "n = j" | "n \<noteq> i" "n \<noteq> j" by blast
    then show "nodeMap \<lparr> heap = hp, nodeMap = (nodeMap h)(getKey (xs ! j) \<mapsto> i, getKey (xs ! i) \<mapsto> j) \<rparr>
                 (getKey (heap \<lparr> heap = hp, nodeMap = (nodeMap h)(getKey (xs ! j) \<mapsto> i, getKey (xs ! i) \<mapsto> j) \<rparr> ! n)) = Some n"
    proof cases
      case 1
      then show ?thesis using hpi ne by simp
    next
      case 2
      then show ?thesis using hpj by simp
    next
      case 3
      have "getKey (xs ! n) \<noteq> getKey (xs ! i)" "getKey (xs ! n) \<noteq> getKey (xs ! j)"
        using heap_inv_keys_inj [OF inv, of n i] heap_inv_keys_inj [OF inv, of n j] 3 n i j
        by (auto simp: xs_def)
      then show ?thesis using hpo [OF 3] A [OF n] by simp
    qed
  next
    fix k assume "k \<notin> getKey ` set (heap \<lparr> heap = hp, nodeMap = (nodeMap h)(getKey (xs ! j) \<mapsto> i, getKey (xs ! i) \<mapsto> j) \<rparr>)"
    then have k: "k \<notin> getKey ` set xs" by (simp add: set_hp)
    then have "k \<noteq> getKey (xs ! i)" "k \<noteq> getKey (xs ! j)"
      using i j by (auto simp: xs_def)
    then show "nodeMap \<lparr> heap = hp, nodeMap = (nodeMap h)(getKey (xs ! j) \<mapsto> i, getKey (xs ! i) \<mapsto> j) \<rparr> k = None"
      using B [OF k] by simp
  qed
qed

lemma heap_inv_heapifyUp:
  "heap_inv h \<Longrightarrow> index < length (heap h) \<Longrightarrow> heap_inv (heapifyUp index h)"
proof (induction index h rule: heapifyUp.induct)
  case (1 index h)
  show ?case
  proof (cases "index > 0 \<and> \<not> js_ge (node_f (heap h ! index)) (node_f (heap h ! ((index - 1) div 2)))")
    case True
    then have p: "(index - 1) div 2 < length (heap h)" using "1.prems" by auto
    have "heap_inv (heapifyUp ((index - 1) div 2) (swap index ((index - 1) div 2) h))"
      using True p "1.prems" by (intro "1.IH" heap_inv_swap) auto
    then show ?thesis
      using True by (subst heapifyUp.simps) (simp add: Let_def)
  next
    case False
    then show ?thesis using "1.prems" by (subst heapifyUp.simps) (auto simp: Let_def)
  qed
qed

lemma heap_inv_heapifyDown:
  "heap_inv h \<Longrightarrow> heap_inv (heapifyDown index h)"
proof (induction index h rule: heapifyDown.induct)
  case (1 index h)
  show ?case
  proof (cases "smallest_of index h = index")
    case True
    then show ?thesis using "1.prems" by (subst heapifyDown.simps) (simp add: Let_def)
  next
    case False
    with smallest_of_cases [of index h]
    have lt: "index < smallest_of index h" "smallest_of index h < length (heap h)" by auto
    have "heap_inv (heapifyDown (smallest_of index h) (swap index (smallest_of index h) h))"
      using False lt "1.prems" by (intro "1.IH" heap_inv_swap) auto
    then show ?thesis
      using False by (subst heapifyDown.simps) (simp add: Let_def)
  qed
qed

text \<open>
  \<open>push\<close> under the invariant: it does not raise, it keeps the invariant, the pushed node
  is in the heap, and the heap grows by one exactly when the key was not in it.
\<close>

lemma push_heap_inv:
  assumes inv: "heap_inv h"
  shows "\<exists>h'. push node h = Inr h' \<and> heap_inv h'
              \<and> node \<in> set (heap h')
              \<and> getKey ` set (heap h') = insert (getKey node) (getKey ` set (heap h))
              \<and> length (heap h') =
                  (if getKey node \<in> getKey ` set (heap h) then length (heap h)
                   else Suc (length (heap h)))"
proof (cases "nodeMap h (getKey node)")
  case None
  define h1 where "h1 = \<lparr> heap = heap h @ [node],
                           nodeMap = (nodeMap h)(getKey node \<mapsto> length (heap h)) \<rparr>"
  have fresh: "getKey node \<notin> getKey ` set (heap h)"
  proof
    assume "getKey node \<in> getKey ` set (heap h)"
    then obtain i where "i < length (heap h)" "getKey (heap h ! i) = getKey node"
      by (auto simp: in_set_conv_nth)
    with inv have "nodeMap h (getKey node) = Some i" by (metis heap_inv_iff)
    with None show False by simp
  qed
  have A: "\<And>n. n < length (heap h) \<Longrightarrow> nodeMap h (getKey (heap h ! n)) = Some n"
    and B: "\<And>k. k \<notin> getKey ` set (heap h) \<Longrightarrow> nodeMap h k = None"
    using inv by (auto simp: heap_inv_iff)
  have inv1: "heap_inv h1"
    unfolding heap_inv_iff
  proof (intro conjI allI impI)
    fix n assume "n < length (heap h1)"
    then have "n < length (heap h) \<or> n = length (heap h)" by (auto simp: h1_def)
    then consider "n < length (heap h)" | "n = length (heap h)" by blast
    then show "nodeMap h1 (getKey (heap h1 ! n)) = Some n"
    proof cases
      case 1
      then have "getKey (heap h ! n) \<noteq> getKey node" using fresh by (metis imageI nth_mem)
      with 1 A [OF 1] show ?thesis by (simp add: h1_def nth_append)
    next
      case 2
      then show ?thesis by (simp add: h1_def)
    qed
  next
    fix k assume "k \<notin> getKey ` set (heap h1)"
    then have "k \<noteq> getKey node" "k \<notin> getKey ` set (heap h)" by (auto simp: h1_def)
    then show "nodeMap h1 k = None" using B by (simp add: h1_def)
  qed
  have p: "push node h = Inr (heapifyUp (length (heap h)) h1)"
    using None by (simp add: push_def Let_def h1_def)
  have lt: "length (heap h) < length (heap h1)" by (simp add: h1_def)
  have "heap_inv (heapifyUp (length (heap h)) h1)"
    by (rule heap_inv_heapifyUp [OF inv1 lt])
  moreover have "set (heap (heapifyUp (length (heap h)) h1)) = insert node (set (heap h))"
    "length (heap (heapifyUp (length (heap h)) h1)) = Suc (length (heap h))"
    using heapifyUp_set_length [OF lt] by (simp_all add: h1_def)
  ultimately show ?thesis using p fresh by simp
next
  case (Some index)
  with inv have lt: "index < length (heap h)" and key: "getKey (heap h ! index) = getKey node"
    unfolding heap_inv_def index_consistent_def by blast+
  define h1 where "h1 = h\<lparr> heap := (heap h)[index := node] \<rparr>"
  have keys: "map getKey (heap h1) = map getKey (heap h)"
    using key lt by (simp add: h1_def map_update list_update_same_conv)
  have len1: "length (heap h1) = length (heap h)" by (simp add: h1_def)
  have nth1: "getKey (heap h1 ! n) = getKey (heap h ! n)" if "n < length (heap h)" for n
    using that keys by (metis len1 nth_map)
  have kset: "getKey ` set (heap h1) = getKey ` set (heap h)"
    using keys by (metis set_map)
  have inv1: "heap_inv h1"
    using inv unfolding heap_inv_iff by (simp add: kset len1 nth1) (simp add: h1_def)
  have mem1: "node \<in> set (heap h1)"
    using lt by (simp add: h1_def set_update_memI)
  have present: "getKey node \<in> getKey ` set (heap h)"
    using key lt by (metis imageI nth_mem)
  have lt1: "index < length (heap h1)" using lt len1 by simp
  from Some lt have "push node h = Inr (heapifyUp index h1)
      \<or> push node h = Inr (heapifyDown index h1) \<or> push node h = Inr h1"
    by (simp add: push_def Let_def h1_def)
  then show ?thesis
  proof (elim disjE)
    assume p: "push node h = Inr (heapifyUp index h1)"
    show ?thesis
      using p heap_inv_heapifyUp [OF inv1 lt1] heapifyUp_set_length [OF lt1] mem1 kset len1 present
      by (simp add: insert_absorb)
  next
    assume p: "push node h = Inr (heapifyDown index h1)"
    show ?thesis
      using p heap_inv_heapifyDown [OF inv1] heapifyDown_set_length [of index h1] mem1 kset len1
        present
      by (simp add: insert_absorb)
  next
    assume p: "push node h = Inr h1"
    show ?thesis using p inv1 mem1 kset len1 present by (simp add: insert_absorb)
  qed
qed

lemma pop_nonempty:
  "heap h \<noteq> [] \<Longrightarrow> \<exists>c h'. pop h = (Some c, h')"
  by (simp add: pop_def Let_def)

lemma pop_heap_inv:
  assumes inv: "heap_inv h"
  shows "heap_inv (snd (pop h))"
proof -
  define xs where "xs = heap h"
  consider "length xs = 0" | "length xs = 1" | "2 \<le> length xs" by linarith
  then show ?thesis
  proof cases
    case 1
    then show ?thesis using inv by (simp add: pop_def xs_def)
  next
    case 2
    then have "butlast xs = []" by (cases xs) auto
    with 2 show ?thesis by (simp add: pop_def xs_def heap_inv_iff)
  next
    case 3
    define n where "n = length xs"
    define hp where "hp = (butlast xs)[0 := last xs]"
    define nm2 where "nm2 = (nodeMap h)(getKey (xs ! 0) := None, getKey (last xs) \<mapsto> 0)"
    define h2 where "h2 = \<lparr> heap = hp, nodeMap = nm2 \<rparr>"
    have n2: "2 \<le> n" using 3 by (simp add: n_def)
    have ne: "xs \<noteq> []" using 3 by auto
    have last: "last xs = xs ! (n - 1)" using ne by (simp add: last_conv_nth n_def)
    have len: "length hp = n - 1" by (simp add: hp_def n_def)
    have hp0: "hp ! 0 = last xs" using n2 by (simp add: hp_def n_def)
    have hpm: "hp ! m = xs ! m" if "0 < m" "m < n - 1" for m
      using that by (simp add: hp_def nth_butlast n_def)
    have A: "\<And>m. m < n \<Longrightarrow> nodeMap h (getKey (xs ! m)) = Some m"
      and B: "\<And>k. k \<notin> getKey ` set xs \<Longrightarrow> nodeMap h k = None"
      using inv by (auto simp: heap_inv_iff xs_def n_def)
    have inj: "i = j" if "i < n" "j < n" "getKey (xs ! i) = getKey (xs ! j)" for i j
      using heap_inv_keys_inj [OF inv] that by (simp add: xs_def n_def)
    have "length (heap h) \<noteq> 0" "length (heap h) \<noteq> 1" using 3 by (auto simp: xs_def)
    then have p: "pop h = (Some (xs ! 0), heapifyDown 0 h2)"
      using hp0 by (simp add: pop_def Let_def xs_def h2_def hp_def nm2_def)
    have inv2: "heap_inv h2"
      unfolding heap_inv_iff
    proof (intro conjI allI impI)
      fix m assume "m < length (heap h2)"
      then have m: "m < n - 1" by (simp add: h2_def len)
      show "nodeMap h2 (getKey (heap h2 ! m)) = Some m"
      proof (cases "m = 0")
        case True
        then show ?thesis by (simp add: h2_def nm2_def hp0)
      next
        case False
        then have pos: "0 < m" by simp
        have mn: "m < n" "n - 1 < n" "0 < n" "m \<noteq> n - 1" using m by simp_all
        have "getKey (xs ! m) \<noteq> getKey (xs ! (n - 1))"
          using inj [OF mn(1,2)] mn(4) by blast
        moreover have "getKey (xs ! m) \<noteq> getKey (xs ! 0)"
          using inj [OF mn(1,3)] pos by blast
        moreover have "nodeMap h (getKey (xs ! m)) = Some m" using A [of m] m by simp
        ultimately show ?thesis
          by (simp add: h2_def nm2_def hpm [OF pos m] last)
      qed
    next
      fix k assume "k \<notin> getKey ` set (heap h2)"
      then have k: "k \<notin> getKey ` set hp" by (simp add: h2_def)
      have "0 < length hp" using len n2 by simp
      then have "hp ! 0 \<in> set hp" by (rule nth_mem)
      then have "getKey (last xs) \<in> getKey ` set hp" unfolding hp0 by (rule imageI)
      with k have kl: "k \<noteq> getKey (last xs)" by blast
      show "nodeMap h2 k = None"
      proof (cases "k = getKey (xs ! 0)")
        case True
        then show ?thesis using kl by (simp add: h2_def nm2_def)
      next
        case False
        have "k \<notin> getKey ` set xs"
        proof
          assume "k \<in> getKey ` set xs"
          then obtain m where m: "m < n" "getKey (xs ! m) = k"
            by (auto simp: in_set_conv_nth n_def)
          with False kl have "0 < m" "m < n - 1"
            using last by (auto intro: gr0I le_neq_implies_less)
          then have "hp ! m = xs ! m" "m < length hp" using hpm len by auto
          then have "k \<in> getKey ` set hp" using m(2) by (metis imageI nth_mem)
          with k show False by simp
        qed
        from B [OF this] False kl show ?thesis by (simp add: h2_def nm2_def)
      qed
    qed
    show ?thesis using p heap_inv_heapifyDown [OF inv2] by simp
  qed
qed

lemma relax_neighbors_heap_inv:
  assumes "heap_inv (openSet st)"
  shows "\<exists>st'. relax_neighbors tmap endNode current nbs st = Inr st' \<and> heap_inv (openSet st')"
  using assms
proof (induction nbs arbitrary: st)
  case Nil
  then show ?case by simp
next
  case (Cons nb rest)
  define newG where "newG = js_add (get_or (gScore st) (getKey current) (Num 0))
                                (movementCost_of tmap current nb)"
  define hh where "hh = getHeuristic nb endNode"
  define nn where "nn = Node (node_x nb) (node_y nb) newG hh (js_add newG hh) (Some current)"
  show ?case
  proof (cases "getKey nb \<in> closedSet st \<or> \<not> js_lt newG (get_or (gScore st) (getKey nb) PosInf)")
    case True
    then have "relax_neighbors tmap endNode current (nb # rest) st
                 = relax_neighbors tmap endNode current rest st"
      by (auto simp: Let_def newG_def)
    with Cons.IH [OF Cons.prems] show ?thesis by simp
  next
    case False
    from push_heap_inv [OF Cons.prems, of nn] obtain os where
      os: "push nn (openSet st) = Inr os" "heap_inv os" by blast
    define st1 where "st1 = st\<lparr> gScore := (gScore st)(getKey nb \<mapsto> newG),
                                fScore := (fScore st)(getKey nb \<mapsto> js_add newG hh),
                                openSet := os \<rparr>"
    have "relax_neighbors tmap endNode current (nb # rest) st
            = relax_neighbors tmap endNode current rest st1"
      using False os(1) by (simp add: Let_def newG_def hh_def nn_def st1_def)
    moreover have "heap_inv (openSet st1)" using os(2) by (simp add: st1_def)
    ultimately show ?thesis using Cons.IH [of st1] by simp
  qed
qed

lemma astar_step_heap_inv:
  assumes inv: "heap_inv (openSet st)"
  shows "(\<exists>r. astar_step t0 t1 endNode tmap w hgt st = Return (Inr r))
         \<or> (\<exists>st'. astar_step t0 t1 endNode tmap w hgt st = Continue st' \<and> heap_inv (openSet st'))"
proof (cases "heap (openSet st) = []")
  case True
  then show ?thesis by (simp add: astar_step_def isEmpty_def)
next
  case False
  from pop_nonempty [OF False] obtain current os where
    p: "pop (openSet st) = (Some current, os)" by blast
  have os: "heap_inv os" using pop_heap_inv [OF inv] p by simp
  show ?thesis
  proof (cases "getKey current \<in> closedSet st")
    case True
    then show ?thesis using False p os by (simp add: astar_step_def isEmpty_def)
  next
    case nc: False
    define st1 where "st1 = st\<lparr> openSet := os, closedSet := insert (getKey current) (closedSet st) \<rparr>"
    have inv1: "heap_inv (openSet st1)" using os by (simp add: st1_def)
    from relax_neighbors_heap_inv [OF inv1, of tmap endNode current "getNeighbors current tmap w hgt"]
    obtain st2 where st2: "relax_neighbors tmap endNode current (getNeighbors current tmap w hgt) st1 = Inr st2"
      "heap_inv (openSet st2)" by blast
    show ?thesis
      using False p nc st2 by (simp add: astar_step_def isEmpty_def Let_def st1_def)
  qed
qed


lemma astar_loop_returns:
  "heap_inv (openSet st) \<Longrightarrow> \<exists>r. astar_loop t0 t1 endNode tmap w hgt st = Inr r"
proof (induction t0 t1 endNode tmap w hgt st rule: astar_loop.induct)
  case (1 t0 t1 endNode tmap w hgt st)
  from astar_step_heap_inv [OF "1.prems", of t0 t1 endNode tmap w hgt]
  show ?case
  proof (elim disjE exE conjE)
    fix r assume "astar_step t0 t1 endNode tmap w hgt st = Return (Inr r)"
    then show ?thesis by (subst astar_loop.simps) simp
  next
    fix st' assume s: "astar_step t0 t1 endNode tmap w hgt st = Continue st'"
      and i: "heap_inv (openSet st')"
    from "1.IH" [OF s i] show ?thesis using s by (subst astar_loop.simps) simp
  qed
qed

section \<open>The clock and the result\<close>

lemma contract_retime: "contract (retime t r) = contract r"
  by (cases r) (simp_all add: contract_def retime_def)

text \<open>The two clock readings reach the result only through the elapsed time.\<close>

lemma astar_step_clock:
  "astar_step t0' t1' endNode tmap w hgt st
     = (case astar_step t0 t1 endNode tmap w hgt st of
          Return r \<Rightarrow> Return (retime (js_round (t1' - t0')) r)
        | Continue s \<Rightarrow> Continue s)"
  by (simp add: astar_step_def retime_def Let_def split: prod.splits option.splits sum.splits)

lemma astar_loop_clock:
  "astar_loop t0' t1' endNode tmap w hgt st
     = retime (js_round (t1' - t0')) (astar_loop t0 t1 endNode tmap w hgt st)"
proof (induction t0 t1 endNode tmap w hgt st rule: astar_loop.induct)
  case (1 t0 t1 endNode tmap w hgt st)
  show ?case
  proof (cases "astar_step t0 t1 endNode tmap w hgt st")
    case (Return r)
    then show ?thesis
      by (subst (1 2) astar_loop.simps) (simp add: astar_step_clock [of t0' t1' _ _ _ _ _ t0 t1])
  next
    case (Continue s)
    with "1.IH" [OF Continue] show ?thesis
      by (subst (1 2) astar_loop.simps) (simp add: astar_step_clock [of t0' t1' _ _ _ _ _ t0 t1])
  qed
qed

lemma findPath_clock:
  "contract (findPath t0' t1' sx sy ex ey tmap) = contract (findPath t0 t1 sx sy ex ey tmap)"
proof -
  have "contract (astar_loop t0' t1' e tmap w hgt st) = contract (astar_loop t0 t1 e tmap w hgt st)"
    for e w hgt st
    by (subst astar_loop_clock [of t0' t1' _ _ _ _ _ t0 t1]) (rule contract_retime)
  then show ?thesis
    by (simp add: findPath_def Let_def contract_def split: sum.splits)
qed

lemma findPath_returns:
  assumes "tmap \<noteq> []"
  shows "\<exists>r. findPath t0 t1 sx sy ex ey tmap = Inr r"
proof -
  have "\<exists>r. (case push start new_BinaryHeap of Inl e \<Rightarrow> Inl e
              | Inr os \<Rightarrow> astar_loop t0 t1 e tmap w hgt (initial_state start os)) = Inr r"
    for start e w hgt
  proof -
    from push_heap_inv [OF heap_inv_new, of start] obtain os where
      os: "push start new_BinaryHeap = Inr os" "heap_inv os" by blast
    then have "heap_inv (openSet (initial_state start os))" by (simp add: initial_state_def)
    from astar_loop_returns [OF this] os(1) show ?thesis by simp
  qed
  then show ?thesis using assms by (simp add: findPath_def Let_def)
qed

section \<open>The search on the 2 by 2 map of land\<close>

lemma heapifyUp_0: "heapifyUp 0 h = h"
  by (subst heapifyUp.simps) simp

lemma push_new: "push n new_BinaryHeap = Inr \<lparr> heap = [n], nodeMap = [getKey n \<mapsto> 0] \<rparr>"
  by (simp add: push_def new_BinaryHeap_def Let_def heapifyUp_0)

lemma terrain_land: "0 \<le> x \<Longrightarrow> x < 2 \<Longrightarrow> 0 \<le> y \<Longrightarrow> y < 2 \<Longrightarrow> terrain_at land_2x2 x y = Some ''land''"
proof -
  assume a: "0 \<le> x" "x < 2" "0 \<le> y" "y < 2"
  then have "(x = 0 \<or> x = 1) \<and> (y = 0 \<or> y = 1)" by auto
  then show ?thesis by (auto simp: terrain_at_def land_2x2_def)
qed

lemma cost_land: "getTerrainCost (Some ''land'') = Num 1"
  by (simp add: getTerrainCost_def TERRAIN_DEFINITIONS_def)

lemma neighbours_a:
  "getNeighbors node_a land_2x2 2 2 =
     [Node 0 1 (Num 0) (Num 0) (Num 0) (Some node_a),
      Node 1 0 (Num 0) (Num 0) (Num 0) (Some node_a),
      Node 1 1 (Num 0) (Num 0) (Num 0) (Some node_a)]"
  by (simp add: getNeighbors_def DIRECTIONS_def node_a_def terrain_land cost_land)

lemma pop_head: "heap h = x # xs \<Longrightarrow> fst (pop h) = Some x"
  by (auto simp: pop_def Let_def last_conv_nth)

lemma first_step:
  "\<exists>s. astar_step t0 t1 (Node 1 1 (Num 0) (Num 0) (Num 0) None) land_2x2 2 2
          (initial_state node_a \<lparr> heap = [node_a], nodeMap = [getKey node_a \<mapsto> 0] \<rparr>) = Continue s
       \<and> heap (openSet s) = [node_b,
             Node 1 0 (Num 1) (Num 1) (Num 2) (Some node_a),
             Node 0 1 (Num 1) (Num 1) (Num 2) (Some node_a)]
       \<and> closedSet s = {(0, 0)}"
  apply (simp add: astar_step_def isEmpty_def pop_def initial_state_def neighbours_a Let_def)
  apply (simp add: node_a_def getKey_def get_or_def movementCost_of_def terrain_land cost_land
      getHeuristic_def push_def Let_def heapifyUp_0 js_gt_def)
  apply (subst heapifyUp.simps, simp add: swap_def Let_def heapifyUp_0)+
  apply (simp add: node_b_def node_a_def getKey_def)
  done


lemma astar_step_goal:
  assumes "heap (openSet s) = c # rest" "getKey c \<notin> closedSet s"
    "node_x c = node_x e" "node_y c = node_y e"
  shows "astar_step t0 t1 e tmap w hgt s =
           Return (Inr \<lparr> path = rev (parent_chain c), distance = node_g c, success = True,
                          computationTime = Some (js_round (t1 - t0)) \<rparr>)"
proof -
  obtain os where "pop (openSet s) = (Some c, os)"
    using pop_head [OF assms(1)] by (cases "pop (openSet s)") auto
  then show ?thesis
    using assms by (simp add: astar_step_def isEmpty_def Let_def)
qed

lemma findPath_land_2x2:
  "findPath t0 t1 0 0 1 1 land_2x2 =
     Inr \<lparr> path = [node_a, node_b], distance = Num 1.414, success = True,
           computationTime = Some (js_round (t1 - t0)) \<rparr>"
proof -
  define e where "e = Node 1 1 (Num 0) (Num 0) (Num 0) None"
  define s0 where "s0 = initial_state node_a \<lparr> heap = [node_a], nodeMap = [getKey node_a \<mapsto> 0] \<rparr>"
  from first_step [of t0 t1] obtain s where
    s: "astar_step t0 t1 e land_2x2 2 2 s0 = Continue s"
      "heap (openSet s) = [node_b, Node 1 0 (Num 1) (Num 1) (Num 2) (Some node_a),
                           Node 0 1 (Num 1) (Num 1) (Num 2) (Some node_a)]"
      "closedSet s = {(0, 0)}"
    unfolding e_def s0_def by blast
  have g: "astar_step t0 t1 e land_2x2 2 2 s =
             Return (Inr \<lparr> path = rev (parent_chain node_b), distance = node_g node_b,
                            success = True, computationTime = Some (js_round (t1 - t0)) \<rparr>)"
    by (rule astar_step_goal [OF s(2)]) (simp_all add: s(3) node_b_def e_def getKey_def)
  have loop: "astar_loop t0 t1 e land_2x2 2 2 s0 =
                Inr \<lparr> path = [node_a, node_b], distance = Num 1.414, success = True,
                      computationTime = Some (js_round (t1 - t0)) \<rparr>"
    apply (subst astar_loop.simps, simp add: s(1))
    apply (subst astar_loop.simps, simp add: g)
    apply (simp add: node_b_def node_a_def)
    done
  have h: "getHeuristic (Node 0 0 (Num 0) (Num 0) (Num 0) None)
             (Node 1 1 (Num 0) (Num 0) (Num 0) None) = Num (sqrt 2)"
    by (simp add: getHeuristic_def)
  show ?thesis
    using loop
    by (simp add: findPath_def land_2x2_def [symmetric] Let_def terrain_land cost_land h
        push_new node_a_def [symmetric] e_def s0_def)
       (simp add: land_2x2_def)
qed

lemma sqrt2_gt: "1.414 < sqrt 2"
  by (rule real_less_rsqrt) (simp add: power2_eq_square)

lemma h_diag: "getHeuristic node_a (Node 1 1 (Num 0) (Num 0) (Num 0) None) = Num (sqrt 2)"
  by (simp add: getHeuristic_def node_a_def)

lemma pc: "path_cost land_2x2 [node_a, node_b] = Num 1.414"
  by (simp add: movementCost_of_def node_a_def node_b_def terrain_land cost_land)

section \<open>Early returns\<close>

text \<open>
  C2 fails on a map without rows: reading the length of its first row raises before any
  bounds check, whatever the coordinates, so the failure is an exception and not a
  failed result. Terrain generation with height 0 returns such a map. (On a map with at
  least one row the early returns are as claimed, see the lemma that follows.)
\<close>

theorem findPath_empty_grid_raises:
  "findPath startTime endTime startX startY endX endY [] = Inl TypeError
   \<and> terrainMap (generateTerrainData noise2D \<lparr> width = 3, height = 0, cellSize = 3 \<rparr> None) = []"
  by (simp add: findPath_def generateTerrainData_def generateMap_def first_pass_def
      second_pass_def terrainMap_of_def Let_def)

lemma findPath_fast_fail:
  assumes "tmap \<noteq> []"
  defines "w \<equiv> int (length (tmap ! 0))" and "hgt \<equiv> int (length tmap)"
  defines "inside \<equiv> \<lambda>x y. 0 \<le> x \<and> x < w \<and> 0 \<le> y \<and> y < hgt"
  shows "\<not> inside sx sy \<or> \<not> inside ex ey \<Longrightarrow>
           findPath t0 t1 sx sy ex ey tmap = Inr early_failure"
    and "inside sx sy \<Longrightarrow> inside ex ey \<Longrightarrow>
         getTerrainCost (terrain_at tmap sx sy) = PosInf
           \<or> getTerrainCost (terrain_at tmap ex ey) = PosInf \<Longrightarrow>
           findPath t0 t1 sx sy ex ey tmap = Inr early_failure"
    and "inside sx sy \<Longrightarrow> getTerrainCost (terrain_at tmap sx sy) \<noteq> PosInf \<Longrightarrow>
           findPath t0 t1 sx sy sx sy tmap =
             Inr \<lparr> path = [Node sx sy (Num 0) (Num 0) (Num 0) None], distance = Num 0,
                   success = True, computationTime = Some (js_round (t1 - t0)) \<rparr>"
  using assms(1)
  by (auto simp: findPath_def Let_def early_failure_def inside_def w_def hgt_def)

section \<open>Determinism\<close>

text \<open>
  C9: two calls of \<open>findPath\<close> with the same coordinates on the same map, at
  whatever clock readings, agree on the contract of the result: both raise (only on a
  map without rows), or both return a result with the same path, the same distance and
  the same success flag. Only the elapsed time can differ. The search always ends.
\<close>

theorem findPath_deterministic:
  "contract (findPath t0 t1 sx sy ex ey tmap) = contract (findPath t0' t1' sx sy ex ey tmap)
   \<and> (tmap \<noteq> [] \<longrightarrow>
        (\<exists>r r'. findPath t0 t1 sx sy ex ey tmap = Inr r
               \<and> findPath t0' t1' sx sy ex ey tmap = Inr r'
               \<and> path r = path r' \<and> distance r = distance r' \<and> success r = success r'))"
proof (intro conjI impI)
  show c: "contract (findPath t0 t1 sx sy ex ey tmap) = contract (findPath t0' t1' sx sy ex ey tmap)"
    by (rule findPath_clock)
  assume ne: "tmap \<noteq> []"
  from findPath_returns [OF ne] obtain r r' where
    r: "findPath t0 t1 sx sy ex ey tmap = Inr r" "findPath t0' t1' sx sy ex ey tmap = Inr r'"
    by metis
  with c have "path r = path r' \<and> distance r = distance r' \<and> success r = success r'"
    by (simp add: contract_def)
  with r show "\<exists>r r'. findPath t0 t1 sx sy ex ey tmap = Inr r
               \<and> findPath t0' t1' sx sy ex ey tmap = Inr r'
               \<and> path r = path r' \<and> distance r = distance r' \<and> success r = success r'"
    by blast
qed

theorem findPath_deterministic_witness:
  "land_2x2 \<noteq> []
   \<and> contract (findPath 0 7 0 0 1 1 land_2x2) = contract (findPath 3 100 0 0 1 1 land_2x2)
   \<and> (\<exists>r r'. findPath 0 7 0 0 1 1 land_2x2 = Inr r
            \<and> findPath 3 100 0 0 1 1 land_2x2 = Inr r'
            \<and> path r = path r' \<and> distance r = distance r' \<and> success r = success r')"
proof -
  have ne: "land_2x2 \<noteq> []" by (simp add: land_2x2_def)
  with findPath_deterministic [of 0 7 0 0 1 1 land_2x2 3 100] show ?thesis by blast
qed

section \<open>Uniqueness in the open set\<close>



section \<open>The heuristic and the diagonal step\<close>

text \<open>
  C1 fails on the 2 by 2 map of land, from (0,0) to (1,1): the heuristic at the start is
  the square root of 2, the diagonal move costs 1 times 1.414, which is less, and
  \<open>findPath\<close> returns that move as the path, with distance 1.414.
\<close>

theorem heuristic_exceeds_diagonal_cost:
  "getHeuristic node_a (Node 1 1 (Num 0) (Num 0) (Num 0) None) = Num (sqrt 2)
   \<and> path_cost land_2x2 [node_a, node_b] = Num 1.414
   \<and> js_lt (path_cost land_2x2 [node_a, node_b])
            (getHeuristic node_a (Node 1 1 (Num 0) (Num 0) (Num 0) None))
   \<and> findPath t0 t1 0 0 1 1 land_2x2 =
        Inr \<lparr> path = [node_a, node_b], distance = Num 1.414, success = True,
              computationTime = Some (js_round (t1 - t0)) \<rparr>"
proof -
  have c: "js_lt (path_cost land_2x2 [node_a, node_b])
             (getHeuristic node_a (Node 1 1 (Num 0) (Num 0) (Num 0) None))"
    unfolding h_diag pc using sqrt2_gt by simp
  show ?thesis
    by (intro conjI h_diag pc c findPath_land_2x2)
qed


end
